theory Spec2Isabelle
  imports Main "HOL-Library.Sublist" "HOL-Library.Multiset"
begin

section \<open>Go strings and the standard-library functions the program calls\<close>

text \<open>
  A Go \<open>string\<close> and a \<open>[]byte\<close> are sequences of bytes; both are modelled as
  \<^typ>\<open>string\<close>, a list of 8-bit characters, and \<open>len\<close> is \<^const>\<open>length\<close>.
  Indices and lengths are natural numbers: an in-memory string is far shorter than
  \<open>2^63\<close> bytes, so the \<open>int\<close> arithmetic of the source never wraps.

  A run-time panic (slice bounds out of range, nil dereference) is the value \<open>Panic\<close>.
  A loop of the source that is not bounded by its data is a
  \<^theory_text>\<open>partial_function (option)\<close>; \<open>None\<close> means that the loop never returns.
\<close>

datatype 'a res = Ok 'a | Panic

definition bindR :: "'a res option \<Rightarrow> ('a \<Rightarrow> 'b res option) \<Rightarrow> 'b res option" where
  "bindR m f = (case m of None \<Rightarrow> None | Some Panic \<Rightarrow> Some Panic | Some (Ok x) \<Rightarrow> f x)"

definition newline :: char where
  "newline = CHR 0x0A"

definition carriage_return :: char where
  "carriage_return = CHR 0x0D"

text \<open>\<open>strings.Index(s, substr)\<close>: the index of the first instance of \<open>substr\<close> in
  \<open>s\<close>, \<open>None\<close> for Go's \<open>-1\<close>. The empty string is found at index 0.\<close>

fun strings_Index :: "string \<Rightarrow> string \<Rightarrow> nat option" where
  "strings_Index [] substr = (if substr = [] then Some 0 else None)"
| "strings_Index (c # cs) substr =
     (if prefix substr (c # cs) then Some 0 else map_option Suc (strings_Index cs substr))"

text \<open>\<open>strings.HasPrefix\<close>.\<close>

definition strings_HasPrefix :: "string \<Rightarrow> string \<Rightarrow> bool" where
  "strings_HasPrefix s p = prefix p s"

text \<open>The byte-wise lower-casing of \<open>A\<close>..\<open>Z\<close>. This is \<open>toLower\<close> of
  \<open>internal/concurrent/processor.go\<close>, and also what \<open>strings.ToLower\<close> does on a
  string that contains only ASCII bytes.\<close>

definition lowerByte :: "char \<Rightarrow> char" where
  "lowerByte b = (if (65::nat) \<le> of_char b \<and> of_char b \<le> (90::nat)
                  then char_of (of_char b + (32::nat)) else b)"

definition toLower :: "string \<Rightarrow> string" where
  "toLower s = map lowerByte s"

definition isASCII :: "string \<Rightarrow> bool" where
  "isASCII s = list_all (\<lambda>c. of_char c < (128::nat)) s"

text \<open>\<open>strings.ToLower\<close>. On an ASCII-only string the standard library lower-cases
  byte by byte; otherwise it returns \<open>strings.Map(unicode.ToLower, s)\<close>, which depends on
  the Unicode case tables and on UTF-8 decoding. That second function is not part of the
  repository and is the parameter \<open>uni\<close>.\<close>

definition strings_ToLower :: "(string \<Rightarrow> string) \<Rightarrow> string \<Rightarrow> string" where
  "strings_ToLower uni s = (if isASCII s then toLower s else uni s)"

section \<open>Rule table\<close>

record Mapping =
  From :: string
  To :: string

section \<open>Replacement engine\<close>

record Replacement = Mapping +
  Line :: int
  Column :: int
  LineText :: string
  NewText :: string
  ByteOffset :: int

text \<open>\<open>LogEntry\<close> of the backup package. Several of its fields have the names of
  fields of \<open>FileResult\<close> and \<open>ProcessContext\<close>; they are written with the
  qualifier \<open>LogEntry\<close>.\<close>

record LogEntry =
  Timestamp :: string
  FilePath :: string
  OriginalSize :: int
  NewSize :: int
  Modified :: bool
  Replacements :: "Replacement list"
  BackupPath :: string
  Error :: string

record FileResult =
  Path :: string
  Replacements :: "Replacement list"
  Modified :: bool
  OriginalSize :: int
  NewSize :: int

subsection \<open>caseInsensitiveReplace\<close>

text \<open>The loop of \<open>caseInsensitiveReplace\<close>, with the loop variables \<open>start\<close> and
  \<open>result\<close> as arguments. The three slice expressions \<open>lowerContent[start:]\<close>,
  \<open>content[start:actualIndex]\<close> and \<open>content[start:]\<close> panic when out of range.\<close>

partial_function (option) caseInsensitiveReplace_loop ::
  "string \<Rightarrow> string \<Rightarrow> string \<Rightarrow> string \<Rightarrow> string \<Rightarrow> nat \<Rightarrow> string \<Rightarrow> string res option"
where
  "caseInsensitiveReplace_loop content from to lowerContent lowerFrom start result =
     (if length lowerContent < start then Some Panic
      else case strings_Index (drop start lowerContent) lowerFrom of
        None \<Rightarrow>
          (if length content < start then Some Panic
           else Some (Ok (result @ drop start content)))
      | Some index \<Rightarrow>
          (if length content < start + index then Some Panic
           else caseInsensitiveReplace_loop content from to lowerContent lowerFrom
                  (start + index + length from)
                  (result @ take index (drop start content) @ to)))"

declare caseInsensitiveReplace_loop.simps [code]

definition caseInsensitiveReplace ::
  "(string \<Rightarrow> string) \<Rightarrow> string \<Rightarrow> string \<Rightarrow> string \<Rightarrow> string res option"
where
  "caseInsensitiveReplace uni content from to =
     (if from = [] then Some (Ok content)
      else caseInsensitiveReplace_loop content from to
             (strings_ToLower uni content) (strings_ToLower uni from) 0 [])"

text \<open>\<open>strings.Join(elems, sep)\<close>.\<close>

fun strings_Join :: "string list \<Rightarrow> string \<Rightarrow> string" where
  "strings_Join [] sep = []"
| "strings_Join [a] sep = a"
| "strings_Join (a # b # bs) sep = a @ sep @ strings_Join (b # bs) sep"

subsection \<open>What caseInsensitiveReplace leaves of the original content\<close>

text \<open>The pieces of \<open>content\<close> that lie between the matches found from \<open>start\<close> on,
  for a pattern of \<open>Suc k\<close> bytes: the scan looks at the folded original only, and after
  a match at \<open>start + index\<close> it goes on at \<open>start + index + Suc k\<close>. The replacement
  string does not occur in this definition.\<close>

function ciPieces :: "string \<Rightarrow> nat \<Rightarrow> string \<Rightarrow> string \<Rightarrow> nat \<Rightarrow> string list res" where
  "ciPieces content k lowerContent lowerFrom start =
     (if length lowerContent < start then Panic
      else case strings_Index (drop start lowerContent) lowerFrom of
        None \<Rightarrow> (if length content < start then Panic else Ok [drop start content])
      | Some index \<Rightarrow>
          (if length content < start + index then Panic
           else case ciPieces content k lowerContent lowerFrom (start + index + Suc k) of
                  Panic \<Rightarrow> Panic
                | Ok ps \<Rightarrow> Ok (take index (drop start content) # ps)))"
  by pat_completeness auto
termination
  by (relation "measure (\<lambda>(content, k, lowerContent, lowerFrom, start).
                  Suc (length lowerContent) - start)") auto

declare ciPieces.simps [simp del]




subsection \<open>More of the standard library\<close>

text \<open>\<open>bufio.Scanner\<close> with the default split function \<open>bufio.ScanLines\<close>: the
  tokens are the lines of the input without their end-of-line marker, which is a
  newline preceded by an optional carriage return; a last line without newline is a
  token when it is not empty. The scanner's buffer grows up to \<open>MaxScanTokenSize\<close>
  bytes: at the first line that does not fit, \<open>Scan\<close> returns false and the loop over
  the lines ends there.\<close>

definition MaxScanTokenSize :: nat where
  "MaxScanTokenSize = 64 * 1024"

definition dropCR :: "string \<Rightarrow> string" where
  "dropCR data = (if data \<noteq> [] \<and> last data = carriage_return then butlast data else data)"

function scanLines :: "string \<Rightarrow> string list" where
  "scanLines data =
     (if data = [] then []
      else let line = takeWhile (\<lambda>c. c \<noteq> newline) data in
        if MaxScanTokenSize \<le> length line then []
        else dropCR line # scanLines (drop (Suc (length line)) data))"
  by pat_completeness auto
termination
  by (relation "measure length") auto

declare scanLines.simps [simp del]

text \<open>The number of extra bytes, after the first, of the UTF-8 sequence at the head of a
  string, as \<open>utf8.DecodeRuneInString\<close> decides it: an invalid or short sequence is one
  byte wide.\<close>

definition inRange :: "nat \<Rightarrow> nat \<Rightarrow> char \<Rightarrow> bool" where
  "inRange lo hi c = (lo \<le> of_char c \<and> of_char c \<le> hi)"

definition continuation :: "nat \<Rightarrow> nat \<Rightarrow> nat \<Rightarrow> string \<Rightarrow> nat" where
  "continuation sz lo hi rest =
     (if length rest < sz - 1 then 0
      else if \<not> inRange lo hi (rest ! 0) then 0
      else if sz \<le> 2 then 1
      else if \<not> inRange 0x80 0xBF (rest ! 1) then 0
      else if sz \<le> 3 then 2
      else if \<not> inRange 0x80 0xBF (rest ! 2) then 0
      else 3)"

definition utf8_extra :: "char \<Rightarrow> string \<Rightarrow> nat" where
  "utf8_extra s0 rest =
     (let b = (of_char s0 :: nat) in
      if b < 0xC2 then 0
      else if b \<le> 0xDF then continuation 2 0x80 0xBF rest
      else if b = 0xE0 then continuation 3 0xA0 0xBF rest
      else if b = 0xED then continuation 3 0x80 0x9F rest
      else if b \<le> 0xEF then continuation 3 0x80 0xBF rest
      else if b = 0xF0 then continuation 4 0x90 0xBF rest
      else if b \<le> 0xF3 then continuation 4 0x80 0xBF rest
      else if b = 0xF4 then continuation 4 0x80 0x8F rest
      else 0)"

text \<open>\<open>strings.ReplaceAll(s, old, new)\<close>, that is \<open>strings.Replace\<close> with \<open>n = -1\<close>.
  With an empty \<open>old\<close> the replacement is inserted at the beginning of the string and
  after each UTF-8 sequence; otherwise the non-overlapping instances of \<open>old\<close> are
  replaced from the left.\<close>

function insertAfterRunes :: "string \<Rightarrow> string \<Rightarrow> string" where
  "insertAfterRunes [] new = []"
| "insertAfterRunes (c # cs) new =
     (c # take (utf8_extra c cs) cs) @ new @ insertAfterRunes (drop (utf8_extra c cs) cs) new"
  by pat_completeness auto
termination
  by (relation "measure (\<lambda>(s, new). length s)") auto

function replaceInstances :: "string \<Rightarrow> char \<Rightarrow> string \<Rightarrow> string \<Rightarrow> string" where
  "replaceInstances s c old' new =
     (case strings_Index s (c # old') of
        None \<Rightarrow> s
      | Some j \<Rightarrow> take j s @ new @ replaceInstances (drop (j + Suc (length old')) s) c old' new)"
  by pat_completeness auto
termination
  apply (relation "measure (\<lambda>(s, c, old', new). length s)")
   apply simp
  apply (case_tac s)
   apply auto
  done

declare replaceInstances.simps [simp del]

definition strings_ReplaceAll :: "string \<Rightarrow> string \<Rightarrow> string \<Rightarrow> string" where
  "strings_ReplaceAll s old new =
     (if old = new then s
      else case old of
        [] \<Rightarrow> new @ insertAfterRunes s new
      | c # old' \<Rightarrow> replaceInstances s c old' new)"

subsection \<open>Configuration, rule table and processing context\<close>

text \<open>Of \<open>config.Config\<close> the engine and the scheduler read \<open>DryRun\<close>,
  \<open>CaseSensitive\<close> and the two backup switches.\<close>

record Config =
  DryRun :: bool
  Backup :: bool
  NoBackup :: bool
  CaseSensitive :: bool

record MappingTable =
  mappings :: "Mapping list"
  sorted :: "Mapping list"

text \<open>The methods of \<open>*MappingTable\<close>. The table is held through a pointer, which may
  be nil: \<open>GetSortedMappings\<close> on a nil table dereferences it and panics.\<close>

definition GetMappings :: "MappingTable \<Rightarrow> Mapping list" where
  "GetMappings mt = mappings mt"

definition GetSortedMappings :: "MappingTable \<Rightarrow> Mapping list" where
  "GetSortedMappings mt = sorted mt"

definition Size :: "MappingTable \<Rightarrow> nat" where
  "Size mt = length (mappings mt)"

definition GetSortedMappings_ptr :: "MappingTable option \<Rightarrow> Mapping list res" where
  "GetSortedMappings_ptr p = (case p of None \<Rightarrow> Panic | Some mt \<Rightarrow> Ok (GetSortedMappings mt))"

datatype ErrorType = ErrTypeFile | ErrTypeConfig | ErrTypeParsing | ErrTypeReplacement | ErrTypeBackup

text \<open>A Go \<open>error\<close>: a \<open>RemapError\<close> with its type, path, message and cause, or an
  error of the operating system or of a decoder, known by its text.\<close>

datatype error = ExternalError string | RemapError ErrorType string string "error option"

text \<open>\<open>ProcessContext\<close>. \<open>Result\<close> is a pointer to a \<open>FileResult\<close> that only the
  pipeline holds, so it is the value itself here; \<open>Metadata\<close> is never read or written
  and is left out.\<close>

record ProcessContext =
  Config :: Config
  FilePath :: string
  Content :: string
  Mappings :: "MappingTable option"
  Result :: FileResult
  Error :: "error option"

subsection \<open>The four stages\<close>

definition validateInputMiddleware :: "ProcessContext \<Rightarrow> ProcessContext res option" where
  "validateInputMiddleware ctx =
     (if length (Content ctx) = 0 then Some (Ok (ctx\<lparr>Result := (Result ctx)\<lparr>Modified := False\<rparr>\<rparr>))
      else if (case Mappings ctx of None \<Rightarrow> True | Some mt \<Rightarrow> Size mt = 0)
        then Some (Ok (ctx\<lparr>Result := (Result ctx)\<lparr>Modified := False\<rparr>\<rparr>))
      else Some (Ok ctx))"

text \<open>The innermost loop of the detect stage: the matches of one rule in one line, from
  \<open>startIndex\<close> on. \<open>lineText[startIndex:]\<close> panics when \<open>startIndex\<close> is beyond the
  line; with an empty \<open>searchText\<close> and an empty \<open>From\<close> the loop never ends.\<close>

partial_function (option) detect_matches ::
  "string \<Rightarrow> string \<Rightarrow> Mapping \<Rightarrow> int \<Rightarrow> string \<Rightarrow> int \<Rightarrow> nat \<Rightarrow> Replacement list
     \<Rightarrow> Replacement list res option"
where
  "detect_matches lineText searchText mapping lineNum lineBytes byteOffset startIndex replacements =
     (if length lineText < startIndex then Some Panic
      else case strings_Index (drop startIndex lineText) searchText of
        None \<Rightarrow> Some (Ok replacements)
      | Some index \<Rightarrow>
          detect_matches lineText searchText mapping lineNum lineBytes byteOffset
            (startIndex + index + length (From mapping))
            (replacements @
              [\<lparr>From = From mapping, To = To mapping, Line = lineNum,
                Column = int (startIndex + index) + 1, LineText = lineBytes, NewText = [],
                ByteOffset = byteOffset + int (startIndex + index)\<rparr>]))"

declare detect_matches.simps [code]

text \<open>The loop over the sorted rules for one line. In case-insensitive mode the
  variable \<open>lineText\<close> is folded again for every rule and stays folded.\<close>

fun detect_mappings ::
  "(string \<Rightarrow> string) \<Rightarrow> bool \<Rightarrow> Mapping list \<Rightarrow> string \<Rightarrow> int \<Rightarrow> string \<Rightarrow> int
     \<Rightarrow> Replacement list \<Rightarrow> Replacement list res option"
where
  "detect_mappings uni cs [] lineText lineNum lineBytes byteOffset replacements =
     Some (Ok replacements)"
| "detect_mappings uni cs (mapping # rest) lineText lineNum lineBytes byteOffset replacements =
     (let searchText = (if cs then From mapping else strings_ToLower uni (From mapping));
          lineText' = (if cs then lineText else strings_ToLower uni lineText)
      in case detect_matches lineText' searchText mapping lineNum lineBytes byteOffset 0
                replacements of
           None \<Rightarrow> None
         | Some Panic \<Rightarrow> Some Panic
         | Some (Ok replacements') \<Rightarrow>
             detect_mappings uni cs rest lineText' lineNum lineBytes byteOffset replacements')"

text \<open>The loop over the lines; \<open>lineNum\<close> is the number of the previous line.\<close>

fun detect_lines ::
  "(string \<Rightarrow> string) \<Rightarrow> bool \<Rightarrow> MappingTable option \<Rightarrow> string list \<Rightarrow> int \<Rightarrow> int
     \<Rightarrow> Replacement list \<Rightarrow> Replacement list res option"
where
  "detect_lines uni cs table [] lineNum byteOffset replacements = Some (Ok replacements)"
| "detect_lines uni cs table (line # rest) lineNum byteOffset replacements =
     (case GetSortedMappings_ptr table of
        Panic \<Rightarrow> Some Panic
      | Ok rules \<Rightarrow>
         (case detect_mappings uni cs rules line (lineNum + 1) line byteOffset replacements of
            None \<Rightarrow> None
          | Some Panic \<Rightarrow> Some Panic
          | Some (Ok replacements') \<Rightarrow>
              detect_lines uni cs table rest (lineNum + 1)
                (byteOffset + int (length line) + 1) replacements'))"

definition detectReplacementsMiddleware ::
  "(string \<Rightarrow> string) \<Rightarrow> ProcessContext \<Rightarrow> ProcessContext res option"
where
  "detectReplacementsMiddleware uni ctx =
     (case detect_lines uni (CaseSensitive (Config ctx)) (Mappings ctx)
             (scanLines (Content ctx)) 0 0 [] of
        None \<Rightarrow> None
      | Some Panic \<Rightarrow> Some Panic
      | Some (Ok replacements) \<Rightarrow>
          Some (Ok (ctx\<lparr>Result := (Result ctx)\<lparr>Replacements := replacements,
                                               Modified := (0 < length replacements)\<rparr>\<rparr>)))"

text \<open>The substitution loop of the apply stage.\<close>

fun apply_mappings ::
  "(string \<Rightarrow> string) \<Rightarrow> bool \<Rightarrow> Mapping list \<Rightarrow> string \<Rightarrow> string res option"
where
  "apply_mappings uni cs [] content = Some (Ok content)"
| "apply_mappings uni cs (mapping # rest) content =
     (if cs then apply_mappings uni cs rest (strings_ReplaceAll content (From mapping) (To mapping))
      else case caseInsensitiveReplace uni content (From mapping) (To mapping) of
             None \<Rightarrow> None
           | Some Panic \<Rightarrow> Some Panic
           | Some (Ok content') \<Rightarrow> apply_mappings uni cs rest content')"

definition applyReplacementsMiddleware ::
  "(string \<Rightarrow> string) \<Rightarrow> ProcessContext \<Rightarrow> ProcessContext res option"
where
  "applyReplacementsMiddleware uni ctx =
     (if \<not> Modified (Result ctx) \<or> DryRun (Config ctx) then Some (Ok ctx)
      else case GetSortedMappings_ptr (Mappings ctx) of
        Panic \<Rightarrow> Some Panic
      | Ok rules \<Rightarrow>
         (case apply_mappings uni (CaseSensitive (Config ctx)) rules (Content ctx) of
            None \<Rightarrow> None
          | Some Panic \<Rightarrow> Some Panic
          | Some (Ok content) \<Rightarrow>
              Some (Ok (ctx\<lparr>Content := content,
                            Result := (Result ctx)\<lparr>
                              NewSize := int (length content),
                              Replacements :=
                                map (\<lambda>r. r\<lparr>NewText := content\<rparr>) (Replacements (Result ctx))\<rparr>\<rparr>))))"

definition validateOutputMiddleware :: "ProcessContext \<Rightarrow> ProcessContext res option" where
  "validateOutputMiddleware ctx =
     (if Modified (Result ctx) \<and> \<not> DryRun (Config ctx) then
        (if length (Content ctx) = 0 \<and> 0 < OriginalSize (Result ctx)
         then Some (Ok (ctx\<lparr>Result := (Result ctx)\<lparr>Modified := False\<rparr>\<rparr>))
         else Some (Ok ctx))
      else Some (Ok ctx))"

subsection \<open>The engine\<close>

record Engine =
  config :: Config
  middleware :: "(ProcessContext \<Rightarrow> ProcessContext res option) list"

definition Use :: "Engine \<Rightarrow> (ProcessContext \<Rightarrow> ProcessContext res option) \<Rightarrow> Engine" where
  "Use e mw = e\<lparr>middleware := middleware e @ [mw]\<rparr>"

definition NewEngine :: "(string \<Rightarrow> string) \<Rightarrow> Config \<Rightarrow> Engine" where
  "NewEngine uni cfg =
     Use (Use (Use (Use \<lparr>config = cfg, middleware = []\<rparr>
       validateInputMiddleware)
       (detectReplacementsMiddleware uni))
       (applyReplacementsMiddleware uni))
       validateOutputMiddleware"

text \<open>The loop of \<open>ProcessFile\<close> over the stages. It yields the final context, of which
  \<open>ProcessFile\<close> returns the \<open>Result\<close>.\<close>

fun run_middleware ::
  "(ProcessContext \<Rightarrow> ProcessContext res option) list \<Rightarrow> ProcessContext
     \<Rightarrow> ProcessContext res option"
where
  "run_middleware [] ctx = Some (Ok ctx)"
| "run_middleware (mw # rest) ctx =
     (case mw ctx of
        None \<Rightarrow> None
      | Some Panic \<Rightarrow> Some Panic
      | Some (Ok ctx') \<Rightarrow>
          (if Error ctx' \<noteq> None
           then Some (Ok (ctx'\<lparr>Result := (Result ctx')\<lparr>Modified := False\<rparr>\<rparr>))
           else run_middleware rest ctx'))"

definition ProcessFile_context ::
  "Engine \<Rightarrow> string \<Rightarrow> string \<Rightarrow> MappingTable option \<Rightarrow> ProcessContext res option"
where
  "ProcessFile_context e filePath content table =
     run_middleware (middleware e)
       \<lparr>Config = config e, FilePath = filePath, Content = content, Mappings = table,
        Result = \<lparr>Path = filePath, Replacements = [], Modified = False,
                  OriginalSize = int (length content), NewSize = 0\<rparr>,
        Error = None\<rparr>"

definition ProcessFile ::
  "Engine \<Rightarrow> string \<Rightarrow> string \<Rightarrow> MappingTable option \<Rightarrow> FileResult res option"
where
  "ProcessFile e filePath content table =
     map_option (map_res Result) (ProcessFile_context e filePath content table)"

section \<open>File system\<close>

text \<open>The files that the program reads and writes: a map from paths to a content and
  permission bits. Two sets say which paths cannot be opened for reading and which
  cannot be created or written; these and a missing file are the failures of the model
  (a write that fails half-way is not modelled). A new file gets the permission bits
  that are asked for: the umask of the process is taken to be zero.\<close>

record file_node =
  file_data :: string
  file_perm :: nat

record filesystem =
  files :: "string \<rightharpoonup> file_node"
  unreadable :: "string set"
  unwritable :: "string set"

definition ErrNotExist :: error where
  "ErrNotExist = ExternalError ''file does not exist''"

definition ErrPermission :: error where
  "ErrPermission = ExternalError ''permission denied''"

definition os_Stat :: "filesystem \<Rightarrow> string \<Rightarrow> error + file_node" where
  "os_Stat fs name = (case files fs name of None \<Rightarrow> Inl ErrNotExist | Some f \<Rightarrow> Inr f)"

definition os_IsNotExist :: "error \<Rightarrow> bool" where
  "os_IsNotExist e = (e = ErrNotExist)"

text \<open>\<open>os.Open\<close>: whether the file can be opened for reading.\<close>

definition os_Open :: "filesystem \<Rightarrow> string \<Rightarrow> error option" where
  "os_Open fs name =
     (case files fs name of
        None \<Rightarrow> Some ErrNotExist
      | Some f \<Rightarrow> if name \<in> unreadable fs then Some ErrPermission else None)"

definition os_ReadFile :: "filesystem \<Rightarrow> string \<Rightarrow> error + string" where
  "os_ReadFile fs name =
     (case files fs name of
        None \<Rightarrow> Inl ErrNotExist
      | Some f \<Rightarrow> if name \<in> unreadable fs then Inl ErrPermission else Inr (file_data f))"

text \<open>\<open>os.Create\<close> truncates an existing file and keeps its permission bits; a new
  file has mode 0666 (438).\<close>

definition os_Create :: "filesystem \<Rightarrow> string \<Rightarrow> error + filesystem" where
  "os_Create fs name =
     (if name \<in> unwritable fs then Inl ErrPermission
      else Inr (fs\<lparr>files := (files fs)(name \<mapsto>
                  \<lparr>file_data = [], file_perm = (case files fs name of None \<Rightarrow> 438 | Some f \<Rightarrow> file_perm f)\<rparr>)\<rparr>))"

text \<open>Writing to the open file \<open>name\<close> (\<open>WriteString\<close>, or the destination of
  \<open>io.Copy\<close>).\<close>

definition write_data :: "filesystem \<Rightarrow> string \<Rightarrow> string \<Rightarrow> filesystem" where
  "write_data fs name d =
     (case files fs name of
        None \<Rightarrow> fs
      | Some f \<Rightarrow> fs\<lparr>files := (files fs)(name \<mapsto> f\<lparr>file_data := file_data f @ d\<rparr>)\<rparr>)"

definition os_WriteFile :: "filesystem \<Rightarrow> string \<Rightarrow> string \<Rightarrow> nat \<Rightarrow> error option \<times> filesystem" where
  "os_WriteFile fs name d p =
     (if name \<in> unwritable fs then (Some ErrPermission, fs)
      else (None, fs\<lparr>files := (files fs)(name \<mapsto>
                  \<lparr>file_data = d, file_perm = (case files fs name of None \<Rightarrow> p | Some f \<Rightarrow> file_perm f)\<rparr>)\<rparr>))"

definition os_Chmod :: "filesystem \<Rightarrow> string \<Rightarrow> nat \<Rightarrow> error option \<times> filesystem" where
  "os_Chmod fs name p =
     (case files fs name of
        None \<Rightarrow> (Some ErrNotExist, fs)
      | Some f \<Rightarrow> (None, fs\<lparr>files := (files fs)(name \<mapsto> f\<lparr>file_perm := p\<rparr>)\<rparr>))"

definition os_Remove :: "filesystem \<Rightarrow> string \<Rightarrow> error option \<times> filesystem" where
  "os_Remove fs name =
     (case files fs name of
        None \<Rightarrow> (Some ErrNotExist, fs)
      | Some f \<Rightarrow> (None, fs\<lparr>files := (files fs)(name := None)\<rparr>))"

definition os_Rename :: "filesystem \<Rightarrow> string \<Rightarrow> string \<Rightarrow> error option \<times> filesystem" where
  "os_Rename fs old new =
     (case files fs old of
        None \<Rightarrow> (Some ErrNotExist, fs)
      | Some f \<Rightarrow>
          if new \<in> unwritable fs then (Some ErrPermission, fs)
          else (None, fs\<lparr>files := ((files fs)(old := None))(new \<mapsto> f)\<rparr>))"

section \<open>Errors\<close>

definition NewFileError :: "string \<Rightarrow> string \<Rightarrow> error option \<Rightarrow> error" where
  "NewFileError path message cause = RemapError ErrTypeFile path message cause"

definition NewFileNotWritableError :: "string \<Rightarrow> error option \<Rightarrow> error" where
  "NewFileNotWritableError path cause = NewFileError path ''file not writable'' cause"

definition NewParsingError :: "string \<Rightarrow> string \<Rightarrow> error option \<Rightarrow> error" where
  "NewParsingError path message cause = RemapError ErrTypeParsing path message cause"

definition NewBackupError :: "string \<Rightarrow> string \<Rightarrow> error option \<Rightarrow> error" where
  "NewBackupError path message cause = RemapError ErrTypeBackup path message cause"



section \<open>Backup store\<close>

text \<open>\<open>RestoreFile\<close> of the backup manager. It does not read the manager's
  \<open>enabled\<close> flag.\<close>

definition RestoreFile :: "filesystem \<Rightarrow> string \<Rightarrow> string \<Rightarrow> error option \<times> filesystem" where
  "RestoreFile fs originalPath backupPath =
     (if backupPath = [] then (None, fs)
      else case (case os_Stat fs backupPath of
                   Inl err \<Rightarrow> if os_IsNotExist err then Some err else None
                 | Inr info \<Rightarrow> None) of
        Some err \<Rightarrow> (Some (NewBackupError backupPath ''backup file not found'' (Some err)), fs)
      | None \<Rightarrow>
         (case os_Open fs backupPath of
            Some err \<Rightarrow> (Some (NewBackupError backupPath ''failed to open backup file'' (Some err)), fs)
          | None \<Rightarrow>
             (case os_Create fs originalPath of
                Inl err \<Rightarrow>
                  (Some (NewBackupError originalPath ''failed to create original file'' (Some err)), fs)
              | Inr fs1 \<Rightarrow>
                 (let fs2 = write_data fs1 originalPath
                              (case files fs1 backupPath of None \<Rightarrow> [] | Some f \<Rightarrow> file_data f)
                  in case os_Stat fs2 backupPath of
                       Inl err \<Rightarrow> (None, fs2)
                     | Inr backupInfo \<Rightarrow> (None, snd (os_Chmod fs2 originalPath (file_perm backupInfo)))))))"

section \<open>Recovery replayer\<close>

text \<open>What the replayer takes from packages outside the repository: the reader of
  \<open>encoding/csv\<close> (with \<open>FieldsPerRecord = -1\<close>), the decoder of \<open>encoding/json\<close>
  for the \<open>entries\<close> of a report, and the two Unicode-aware functions that
  \<open>strings.TrimSpace\<close> falls back to when it meets a non-ASCII byte.\<close>

record library =
  csv_ReadAll :: "string \<Rightarrow> error + string list list"
  json_Unmarshal_entries :: "string \<Rightarrow> error + LogEntry list"
  TrimFunc_IsSpace :: "string \<Rightarrow> string"
  TrimRightFunc_IsSpace :: "string \<Rightarrow> string"

text \<open>\<open>strings.Split(s, "\n")\<close>.\<close>

function split_lines :: "string \<Rightarrow> string list" where
  "split_lines s =
     (if newline \<in> set s
      then takeWhile (\<lambda>c. c \<noteq> newline) s
             # split_lines (drop (Suc (length (takeWhile (\<lambda>c. c \<noteq> newline) s))) s)
      else [s])"
  by pat_completeness auto
termination
  apply (relation "measure length")
   apply simp
  apply (case_tac s)
   apply auto
  done

declare split_lines.simps [simp del]

text \<open>\<open>strings.TrimSpace\<close>: the ASCII fast path, and the two fall-backs.\<close>

definition asciiSpace :: "char \<Rightarrow> bool" where
  "asciiSpace c = (c \<in> {CHR 0x09, CHR 0x0A, CHR 0x0B, CHR 0x0C, CHR 0x0D, CHR 0x20})"

fun trimRight_ascii :: "library \<Rightarrow> string \<Rightarrow> string" where
  "trimRight_ascii lib s =
     (let r = dropWhile asciiSpace (rev s) in
      case r of
        [] \<Rightarrow> []
      | c # _ \<Rightarrow> if (128::nat) \<le> of_char c then TrimRightFunc_IsSpace lib (rev r) else rev r)"

fun strings_TrimSpace :: "library \<Rightarrow> string \<Rightarrow> string" where
  "strings_TrimSpace lib s =
     (let t = dropWhile asciiSpace s in
      case t of
        [] \<Rightarrow> []
      | c # _ \<Rightarrow> if (128::nat) \<le> of_char c then TrimFunc_IsSpace lib t else trimRight_ascii lib t)"

text \<open>The loop of \<open>parseCSVLog\<close> over the records, the first one left out. The Go map
  \<open>entryMap\<close> is a list of paths with their entries, in the order in which the paths
  were first seen.\<close>

fun add_record :: "(string \<times> LogEntry) list \<Rightarrow> string list \<Rightarrow> (string \<times> LogEntry) list" where
  "add_record entryMap record =
     (if length record < 5 then entryMap
      else
        let filePath = record ! 0; from = record ! 1; to = record ! 2;
            replacement = \<lparr>From = from, To = to, Line = 0, Column = 0, LineText = [],
                           NewText = [], ByteOffset = 0\<rparr>
        in case map_of entryMap filePath of
             None \<Rightarrow>
               entryMap @
                 [(filePath, \<lparr>LogEntry.Timestamp = [], LogEntry.FilePath = filePath,
                    LogEntry.OriginalSize = 0, LogEntry.NewSize = 0, LogEntry.Modified = True,
                    LogEntry.Replacements = [replacement], LogEntry.BackupPath = [],
                    LogEntry.Error = []\<rparr>)]
           | Some entry \<Rightarrow>
               map (\<lambda>(k, e). if k = filePath
                      then (k, e\<lparr>LogEntry.Replacements := LogEntry.Replacements e @ [replacement]\<rparr>)
                      else (k, e)) entryMap)"

declare add_record.simps [simp del]

text \<open>\<open>parseCSVLog\<close>. Its last loop ranges over the Go map, whose iteration order is
  not specified: the list returned here has the entries in the order in which their
  paths were first seen, and stands for any of its permutations.\<close>

definition csv_lines :: "library \<Rightarrow> string \<Rightarrow> string list" where
  "csv_lines lib content =
     filter (\<lambda>line. \<not> (line = [] \<or> strings_HasPrefix line ''#''))
       (map (strings_TrimSpace lib) (split_lines content))"

definition parseCSVLog :: "library \<Rightarrow> string \<Rightarrow> error + LogEntry list" where
  "parseCSVLog lib content =
     (let csvLines = csv_lines lib content in
      if length csvLines = 0 then Inl (NewParsingError [] ''no CSV data found in log file'' None)
      else case csv_ReadAll lib (strings_Join csvLines [newline]) of
        Inl err \<Rightarrow> Inl (NewParsingError [] ''failed to parse CSV data'' (Some err))
      | Inr records \<Rightarrow>
          if length records = 0 then Inl (NewParsingError [] ''no records found in CSV'' None)
          else Inr (map snd (foldl add_record [] (tl records))))"









text \<open>Apply.\<close>

definition applyReplacements :: "filesystem \<Rightarrow> LogEntry \<Rightarrow> error option \<times> filesystem" where
  "applyReplacements fs entry =
     (case os_ReadFile fs (LogEntry.FilePath entry) of
        Inl err \<Rightarrow>
          (Some (NewFileError (LogEntry.FilePath entry) ''failed to read file for apply'' (Some err)), fs)
      | Inr content \<Rightarrow>
          os_WriteFile fs (LogEntry.FilePath entry)
            (foldl (\<lambda>modifiedContent repl. strings_ReplaceAll modifiedContent (From repl) (To repl))
               content (LogEntry.Replacements entry))
            420)"

definition applyEntry :: "filesystem \<Rightarrow> LogEntry \<Rightarrow> error option \<times> filesystem" where
  "applyEntry fs entry = applyReplacements fs entry"

text \<open>\<open>BackupFile\<close>. The path of the backup is made from the clock
  (\<open>generateBackupPath\<close>); the function from a file path to the backup path at the time
  of the call is the parameter \<open>backupPathFor\<close>.\<close>

definition BackupFile ::
  "(string \<Rightarrow> string) \<Rightarrow> bool \<Rightarrow> filesystem \<Rightarrow> string \<Rightarrow> (string \<times> error option) \<times> filesystem"
where
  "BackupFile backupPathFor enabled fs filePath =
     (if \<not> enabled then (([], None), fs)
      else
        let backupPath = backupPathFor filePath in
        case os_Open fs filePath of
          Some err \<Rightarrow> (([], Some (NewBackupError filePath ''failed to open source file'' (Some err))), fs)
        | None \<Rightarrow>
           (case os_Create fs backupPath of
              Inl err \<Rightarrow>
                (([], Some (NewBackupError backupPath ''failed to create backup file'' (Some err))), fs)
            | Inr fs1 \<Rightarrow>
               (let fs2 = write_data fs1 backupPath
                            (case files fs1 filePath of None \<Rightarrow> [] | Some f \<Rightarrow> file_data f)
                in case os_Stat fs2 filePath of
                     Inl err \<Rightarrow> ((backupPath, None), fs2)
                   | Inr srcInfo \<Rightarrow>
                       ((backupPath, None), snd (os_Chmod fs2 backupPath (file_perm srcInfo))))))"

section \<open>Worker-pool scheduler: the processing of one file\<close>

text \<open>\<open>findStringFrom\<close>: the first index from \<open>start\<close> on at which \<open>search\<close>
  stands in \<open>content\<close>. The bound \<open>len(content)-len(search)\<close> may be negative.\<close>

function findStringFrom :: "string \<Rightarrow> string \<Rightarrow> nat \<Rightarrow> nat option" where
  "findStringFrom content search i =
     (if int i \<le> int (length content) - int (length search) then
        (if take (length search) (drop i content) = search then Some i
         else findStringFrom content search (Suc i))
      else None)"
  by pat_completeness auto
termination
  by (relation "measure (\<lambda>(content, search, i). Suc (length content) - i)") auto

declare findStringFrom.simps [simp del]

text \<open>The loop of \<open>replaceAll\<close>. The index that \<open>findStringFrom\<close> returns is between
  \<open>start\<close> and the length of the content, so the slices are in range.\<close>

partial_function (option) replaceAll_loop ::
  "string \<Rightarrow> string \<Rightarrow> string \<Rightarrow> nat \<Rightarrow> string \<Rightarrow> string option"
where
  "replaceAll_loop content from to start result =
     (if start < length content then
        (case findStringFrom content from start of
           None \<Rightarrow> Some (result @ drop start content)
         | Some index \<Rightarrow>
             replaceAll_loop content from to (index + length from)
               (result @ take (index - start) (drop start content) @ to))
      else Some result)"

declare replaceAll_loop.simps [code]

definition replaceAll :: "string \<Rightarrow> string \<Rightarrow> string \<Rightarrow> string option" where
  "replaceAll content from to =
     (if from = [] then Some content else replaceAll_loop content from to 0 [])"

text \<open>\<open>caseInsensitiveFindStringFrom\<close> folds both strings with \<open>toLower\<close> and then
  runs the loop of \<open>findStringFrom\<close> on them.\<close>

definition caseInsensitiveFindStringFrom :: "string \<Rightarrow> string \<Rightarrow> nat \<Rightarrow> nat option" where
  "caseInsensitiveFindStringFrom content search start =
     findStringFrom (toLower content) (toLower search) start"

partial_function (option) caseInsensitiveReplaceAll_loop ::
  "string \<Rightarrow> string \<Rightarrow> string \<Rightarrow> nat \<Rightarrow> string \<Rightarrow> string option"
where
  "caseInsensitiveReplaceAll_loop content from to start result =
     (if start < length content then
        (case caseInsensitiveFindStringFrom content from start of
           None \<Rightarrow> Some (result @ drop start content)
         | Some index \<Rightarrow>
             caseInsensitiveReplaceAll_loop content from to (index + length from)
               (result @ take (index - start) (drop start content) @ to))
      else Some result)"

declare caseInsensitiveReplaceAll_loop.simps [code]

definition caseInsensitiveReplaceAll :: "string \<Rightarrow> string \<Rightarrow> string \<Rightarrow> string option" where
  "caseInsensitiveReplaceAll content from to =
     (if from = [] then Some content else caseInsensitiveReplaceAll_loop content from to 0 [])"

text \<open>The substitution loop of \<open>writeFile\<close> over the sorted rules.\<close>

fun writeFile_content :: "bool \<Rightarrow> Mapping list \<Rightarrow> string \<Rightarrow> string option" where
  "writeFile_content cs [] content = Some content"
| "writeFile_content cs (mapping # rest) content =
     (case (if cs then replaceAll content (From mapping) (To mapping)
            else caseInsensitiveReplaceAll content (From mapping) (To mapping)) of
        None \<Rightarrow> None
      | Some content' \<Rightarrow> writeFile_content cs rest content')"

text \<open>The text of an error, and \<open>WrapFileError\<close>, which classifies an error by its
  text. \<open>filepath.Abs\<close> depends on the working directory and is the parameter
  \<open>absPath\<close>.\<close>

definition ErrorType_text :: "ErrorType \<Rightarrow> string" where
  "ErrorType_text t =
     (case t of ErrTypeFile \<Rightarrow> ''file'' | ErrTypeConfig \<Rightarrow> ''config''
      | ErrTypeParsing \<Rightarrow> ''parsing'' | ErrTypeReplacement \<Rightarrow> ''replacement''
      | ErrTypeBackup \<Rightarrow> ''backup'')"

fun Error_text :: "error \<Rightarrow> string" where
  "Error_text (ExternalError msg) = msg"
| "Error_text (RemapError t path message cause) =
     (if path \<noteq> [] then ErrorType_text t @ '' error for '' @ path @ '': '' @ message
      else ErrorType_text t @ '' error: '' @ message)"

definition isNotFoundError :: "error \<Rightarrow> bool" where
  "isNotFoundError err = (\<not> strings_HasPrefix (Error_text err) ''/'')"

definition WrapFileError :: "(string \<Rightarrow> string) \<Rightarrow> string \<Rightarrow> error \<Rightarrow> error" where
  "WrapFileError absPath path err =
     (if isNotFoundError err then NewFileError (absPath path) ''file not found'' (Some err)
      else NewFileError (absPath path) ''file operation failed'' (Some err))"

text \<open>\<open>writeFile\<close>. The deferred \<open>os.Remove(tempFile)\<close> runs on every return after
  the temporary file was created; its error is dropped.\<close>

definition writeFile ::
  "(string \<Rightarrow> string) \<Rightarrow> Config \<Rightarrow> MappingTable \<Rightarrow> filesystem \<Rightarrow> string \<Rightarrow> string
     \<Rightarrow> (error option \<times> filesystem) option"
where
  "writeFile absPath cfg table fs filePath originalContent =
     (case os_Stat fs filePath of
        Inl err \<Rightarrow> Some (Some (WrapFileError absPath filePath err), fs)
      | Inr info \<Rightarrow>
         (let tempFile = filePath @ ''.tmp'' in
          case os_Create fs tempFile of
            Inl err \<Rightarrow> Some (Some (NewFileNotWritableError filePath (Some err)), fs)
          | Inr fs1 \<Rightarrow>
             (case writeFile_content (CaseSensitive cfg) (GetSortedMappings table) originalContent of
                None \<Rightarrow> None
              | Some content \<Rightarrow>
                 (let fs2 = write_data fs1 tempFile content in
                  case os_Chmod fs2 tempFile (file_perm info) of
                    (Some err, fs3) \<Rightarrow>
                      Some (Some (NewFileNotWritableError filePath (Some err)),
                            snd (os_Remove fs3 tempFile))
                  | (None, fs3) \<Rightarrow>
                     (case os_Rename fs3 tempFile filePath of
                        (Some err, fs4) \<Rightarrow>
                          Some (Some (NewFileNotWritableError filePath (Some err)),
                                snd (os_Remove fs4 tempFile))
                      | (None, fs4) \<Rightarrow> Some (None, snd (os_Remove fs4 tempFile)))))))"

definition ShouldCreateBackup :: "Config \<Rightarrow> bool" where
  "ShouldCreateBackup c = (if NoBackup c then False else True)"

record ProcessResult =
  JobFilePath :: string
  JobResult :: "FileResult option"
  JobBackupPath :: string
  JobError :: "error option"

text \<open>\<open>processFile\<close> of the scheduler, for the job of the file \<open>filePath\<close>. The fields
  of \<open>ProcessResult\<close> are \<open>Job.FilePath\<close>, \<open>Result\<close>, \<open>BackupPath\<close> and \<open>Error\<close>.\<close>

definition processFile ::
  "(string \<Rightarrow> string) \<Rightarrow> (string \<Rightarrow> string) \<Rightarrow> (string \<Rightarrow> string) \<Rightarrow> Config \<Rightarrow> MappingTable
     \<Rightarrow> filesystem \<Rightarrow> string \<Rightarrow> (ProcessResult \<times> filesystem) res option"
where
  "processFile uni absPath backupPathFor cfg table fs filePath =
     (let result = \<lparr>JobFilePath = filePath, JobResult = None, JobBackupPath = [], JobError = None\<rparr> in
      case os_ReadFile fs filePath of
        Inl err \<Rightarrow> Some (Ok (result\<lparr>JobError := Some (WrapFileError absPath filePath err)\<rparr>, fs))
      | Inr content \<Rightarrow>
         (case ProcessFile (NewEngine uni cfg) filePath content (Some table) of
            None \<Rightarrow> None
          | Some Panic \<Rightarrow> Some Panic
          | Some (Ok replacementResult) \<Rightarrow>
             (let result1 = result\<lparr>JobResult := Some replacementResult\<rparr> in
              if \<not> Modified replacementResult then Some (Ok (result1, fs))
              else
                case (if ShouldCreateBackup cfg
                      then BackupFile backupPathFor (ShouldCreateBackup cfg) fs filePath
                      else (([], None), fs)) of
                  ((backupPath, Some backupErr), fs1) \<Rightarrow>
                    Some (Ok (result1\<lparr>JobError := Some backupErr\<rparr>, fs1))
                | ((backupPath, None), fs1) \<Rightarrow>
                   (let result2 = result1\<lparr>JobBackupPath := backupPath\<rparr> in
                    if \<not> DryRun cfg then
                      (case writeFile absPath cfg table fs1 filePath content of
                         None \<Rightarrow> None
                       | Some (Some err, fs2) \<Rightarrow>
                           Some (Ok (result2\<lparr>JobError := Some err\<rparr>,
                                     (if backupPath \<noteq> []
                                      then snd (RestoreFile fs2 filePath backupPath) else fs2)))
                       | Some (None, fs2) \<Rightarrow> Some (Ok (result2, fs2)))
                    else Some (Ok (result2, fs1))))))"

subsection \<open>Auxiliary descriptions of the pipeline\<close>

text \<open>The context that \<open>ProcessFile\<close> starts from, and the context after the detect
  stage has found the occurrences \<open>rs\<close>.\<close>

definition initial_context ::
  "Config \<Rightarrow> string \<Rightarrow> string \<Rightarrow> MappingTable option \<Rightarrow> ProcessContext"
where
  "initial_context cfg path content table =
     \<lparr>Config = cfg, FilePath = path, Content = content, Mappings = table,
      Result = \<lparr>Path = path, Replacements = [], Modified = False,
                OriginalSize = int (length content), NewSize = 0\<rparr>,
      Error = None\<rparr>"

definition detected_context ::
  "Config \<Rightarrow> string \<Rightarrow> string \<Rightarrow> MappingTable option \<Rightarrow> Replacement list \<Rightarrow> ProcessContext"
where
  "detected_context cfg path content table rs =
     \<lparr>Config = cfg, FilePath = path, Content = content, Mappings = table,
      Result = \<lparr>Path = path, Replacements = rs, Modified = (rs \<noteq> []),
                OriginalSize = int (length content), NewSize = 0\<rparr>,
      Error = None\<rparr>"

text \<open>The occurrences that the detect stage finds in a content: the result of its loop
  over the lines.\<close>

definition detect ::
  "(string \<Rightarrow> string) \<Rightarrow> bool \<Rightarrow> MappingTable option \<Rightarrow> string \<Rightarrow> Replacement list res option"
where
  "detect uni cs table content = detect_lines uni cs table (scanLines content) 0 0 []"

text \<open>The positions at which the innermost detect loop finds a pattern of \<open>Suc k\<close>
  bytes in a line, and the occurrence it records for a position.\<close>

function match_positions :: "string \<Rightarrow> string \<Rightarrow> nat \<Rightarrow> nat \<Rightarrow> nat list res" where
  "match_positions lineText searchText k startIndex =
     (if length lineText < startIndex then Panic
      else case strings_Index (drop startIndex lineText) searchText of
        None \<Rightarrow> Ok []
      | Some index \<Rightarrow>
          (case match_positions lineText searchText k (startIndex + index + Suc k) of
             Panic \<Rightarrow> Panic
           | Ok ps \<Rightarrow> Ok ((startIndex + index) # ps)))"
  by pat_completeness auto
termination
  by (relation "measure (\<lambda>(lineText, searchText, k, startIndex).
                  Suc (length lineText) - startIndex)") auto

declare match_positions.simps [simp del]

definition occurrence :: "Mapping \<Rightarrow> int \<Rightarrow> string \<Rightarrow> int \<Rightarrow> nat \<Rightarrow> Replacement" where
  "occurrence mapping lineNum lineBytes byteOffset actualIndex =
     \<lparr>From = From mapping, To = To mapping, Line = lineNum,
      Column = int actualIndex + 1, LineText = lineBytes, NewText = [],
      ByteOffset = byteOffset + int actualIndex\<rparr>"

text \<open>The context after the apply stage has replaced the content by \<open>content'\<close> and
  the output validation has looked at it.\<close>

definition applied_context ::
  "Config \<Rightarrow> string \<Rightarrow> string \<Rightarrow> MappingTable option \<Rightarrow> Replacement list \<Rightarrow> string
     \<Rightarrow> ProcessContext"
where
  "applied_context cfg path content table rs content' =
     \<lparr>Config = cfg, FilePath = path, Content = content', Mappings = table,
      Result = \<lparr>Path = path,
                Replacements = map (\<lambda>r. r\<lparr>NewText := content'\<rparr>) rs,
                Modified = (\<not> (length content' = 0 \<and> 0 < length content)),
                OriginalSize = int (length content), NewSize = int (length content')\<rparr>,
      Error = None\<rparr>"

subsection \<open>Auxiliary descriptions of the recovery replayer\<close>





text \<open>The grouping of CSV rows by path: the paths in the order in which they are first
  seen, and for each path the entry made of its rows.\<close>

definition first_seen :: "'a list \<Rightarrow> 'a list" where
  "first_seen xs = foldl (\<lambda>acc x. if x \<in> set acc then acc else acc @ [x]) [] xs"

definition data_rows :: "string list list \<Rightarrow> string list list" where
  "data_rows records = filter (\<lambda>record. 5 \<le> length record) records"

definition row_replacement :: "string list \<Rightarrow> Replacement" where
  "row_replacement record =
     \<lparr>From = record ! 1, To = record ! 2, Line = 0, Column = 0, LineText = [],
      NewText = [], ByteOffset = 0\<rparr>"

definition entry_for :: "string list list \<Rightarrow> string \<Rightarrow> LogEntry" where
  "entry_for rows filePath =
     \<lparr>LogEntry.Timestamp = [], LogEntry.FilePath = filePath,
      LogEntry.OriginalSize = 0, LogEntry.NewSize = 0, LogEntry.Modified = True,
      LogEntry.Replacements =
        map row_replacement (filter (\<lambda>record. record ! 0 = filePath) rows),
      LogEntry.BackupPath = [], LogEntry.Error = []\<rparr>"

definition grouped :: "string list list \<Rightarrow> LogEntry list" where
  "grouped rows = map (entry_for rows) (first_seen (map (\<lambda>record. record ! 0) rows))"

definition ignored_line :: "library \<Rightarrow> string \<Rightarrow> bool" where
  "ignored_line lib line =
     (strings_TrimSpace lib line = [] \<or> strings_HasPrefix (strings_TrimSpace lib line) ''#'')"

text \<open>The records that the reader of \<open>encoding/csv\<close> returns for an input without
  quotes and without empty lines: one record per line, one field per comma-separated
  piece. It stands for the reader in the examples.\<close>

function split_commas :: "string \<Rightarrow> string list" where
  "split_commas s =
     (if CHR '','' \<in> set s
      then takeWhile (\<lambda>c. c \<noteq> CHR '','') s
             # split_commas (drop (Suc (length (takeWhile (\<lambda>c. c \<noteq> CHR '','') s))) s)
      else [s])"
  by pat_completeness auto
termination
  apply (relation "measure length")
   apply simp
  apply (case_tac s)
   apply auto
  done

declare split_commas.simps [simp del]

definition unquoted_csv :: "string \<Rightarrow> error + string list list" where
  "unquoted_csv s = Inr (map split_commas (split_lines s))"

definition example_library :: library where
  "example_library =
     \<lparr>csv_ReadAll = unquoted_csv,
      json_Unmarshal_entries = (\<lambda>s. Inl (ExternalError ''invalid character'')),
      TrimFunc_IsSpace = (\<lambda>s. s), TrimRightFunc_IsSpace = (\<lambda>s. s)\<rparr>"

text \<open>A file content in which some instances have been replaced, as a list of pieces: a
  byte that is still the original one, or an instance of \<open>from\<close> that now reads \<open>to\<close>.
  \<open>current_text\<close> is what the file holds, \<open>original_text\<close> what it held before any
  replacement. \<open>substitute\<close> is one forward replacement on pieces (the instances of
  \<open>from\<close> made of original bytes, from the left), \<open>restore\<close> one reverse replacement
  (every piece of the rule becomes original bytes again).\<close>

datatype piece = Raw char | Sub string string


fun original_text :: "piece \<Rightarrow> string" where
  "original_text (Raw c) = [c]"
| "original_text (Sub f t) = f"



definition restore :: "string \<Rightarrow> string \<Rightarrow> piece list \<Rightarrow> piece list" where
  "restore f t ps = concat (map (\<lambda>p. if p = Sub f t then map Raw f else [p]) ps)"


definition original_content :: "piece list \<Rightarrow> string" where
  "original_content ps = concat (map original_text ps)"




section \<open>Properties of the string functions\<close>


lemma strings_Index_take:
  "strings_Index s sub = Some i \<Longrightarrow> take (length sub) (drop i s) = sub"
  by (induction s arbitrary: i) (auto split: if_splits simp: prefix_def)

lemma strings_Join_Cons:
  "ps \<noteq> [] \<Longrightarrow> strings_Join (p # ps) sep = p @ sep @ strings_Join ps sep"
  by (cases ps) simp_all

lemma drop_split3:
  "drop s c = take i (drop s c) @ take n (drop (s + i) c) @ drop (s + i + n) c"
proof -
  have a: "take n (drop (s + i) c) @ drop n (drop (s + i) c) = drop (s + i) c"
    by (rule append_take_drop_id)
  have b: "take i (drop s c) @ drop i (drop s c) = drop s c"
    by (rule append_take_drop_id)
  have c: "drop n (drop (s + i) c) = drop (s + i + n) c" "drop i (drop s c) = drop (s + i) c"
    by (simp_all add: ac_simps)
  show ?thesis using a b unfolding c by simp
qed


section \<open>The case-insensitive replace-all of the engine\<close>

lemma ciPieces_nonempty: "ciPieces content k lc lf start = Ok ps \<Longrightarrow> ps \<noteq> []"
  by (subst (asm) ciPieces.simps) (auto split: if_splits option.splits res.splits)

text \<open>The loop returns for every state once the pattern is not empty, and what it
  returns is the pieces of the original joined by the replacement.\<close>

lemma caseInsensitiveReplace_loop_pieces:
  "length from = Suc k \<Longrightarrow>
   caseInsensitiveReplace_loop content from to lc lf start result =
     Some (map_res (\<lambda>ps. result @ strings_Join ps to) (ciPieces content k lc lf start))"
proof (induction content k lc lf start arbitrary: result rule: ciPieces.induct)
  case (1 content k lc lf start)
  show ?case
  proof (cases "length lc < start")
    case True
    then show ?thesis
      by (subst caseInsensitiveReplace_loop.simps, subst ciPieces.simps) simp
  next
    case inrange: False
    show ?thesis
    proof (cases "strings_Index (drop start lc) lf")
      case None
      with inrange show ?thesis
        by (subst caseInsensitiveReplace_loop.simps, subst ciPieces.simps) simp
    next
      case (Some index)
      show ?thesis
      proof (cases "length content < start + index")
        case True
        with inrange Some show ?thesis
          by (subst caseInsensitiveReplace_loop.simps, subst ciPieces.simps) simp
      next
        case False
        note IH = "1.IH" [OF inrange Some False "1.prems"]
        show ?thesis
        proof (cases "ciPieces content k lc lf (start + index + Suc k)")
          case Panic
          with inrange Some False IH "1.prems" show ?thesis
            by (subst caseInsensitiveReplace_loop.simps, subst ciPieces.simps) simp
        next
          case (Ok ps)
          then have "ps \<noteq> []" by (rule ciPieces_nonempty)
          with Ok inrange Some False IH "1.prems" show ?thesis
            by (subst caseInsensitiveReplace_loop.simps, subst ciPieces.simps)
               (simp add: strings_Join_Cons)
        qed
      qed
    qed
  qed
qed



lemma caseInsensitiveReplace_pieces:
  assumes "from \<noteq> []"
  shows "caseInsensitiveReplace uni content from to =
           Some (map_res (\<lambda>ps. strings_Join ps to)
                   (ciPieces content (length from - 1)
                      (strings_ToLower uni content) (strings_ToLower uni from) 0))"
proof -
  from assms have len: "length from = Suc (length from - 1)" by (cases "from") simp_all
  have "caseInsensitiveReplace uni content from to =
        caseInsensitiveReplace_loop content from to
             (strings_ToLower uni content) (strings_ToLower uni from) 0 []"
    using assms by (simp add: caseInsensitiveReplace_def)
  also have "\<dots> = Some (map_res (\<lambda>ps. [] @ strings_Join ps to)
                   (ciPieces content (length from - 1)
                      (strings_ToLower uni content) (strings_ToLower uni from) 0))"
    by (rule caseInsensitiveReplace_loop_pieces [OF len])
  finally show ?thesis by simp
qed





section \<open>The detect stage\<close>

lemma detect_matches_positions:
  "length (From m) = Suc k \<Longrightarrow>
   detect_matches lineText searchText m lineNum lineBytes byteOffset startIndex rs =
     Some (map_res (\<lambda>ps. rs @ map (occurrence m lineNum lineBytes byteOffset) ps)
             (match_positions lineText searchText k startIndex))"
proof (induction lineText searchText k startIndex arbitrary: rs rule: match_positions.induct)
  case (1 lineText searchText k startIndex)
  show ?case
  proof (cases "length lineText < startIndex")
    case True
    then show ?thesis
      by (subst detect_matches.simps, subst match_positions.simps) simp
  next
    case inrange: False
    show ?thesis
    proof (cases "strings_Index (drop startIndex lineText) searchText")
      case None
      with inrange show ?thesis
        by (subst detect_matches.simps, subst match_positions.simps) simp
    next
      case (Some index)
      note IH = "1.IH" [OF inrange Some "1.prems"]
      show ?thesis
        using inrange Some "1.prems" IH
        by (subst detect_matches.simps, subst match_positions.simps)
           (simp add: occurrence_def split: res.splits)
    qed
  qed
qed

lemma strings_Index_Nil [simp]: "strings_Index s [] = Some 0"
  by (cases s) simp_all

lemma strings_Index_set: "strings_Index s sub = Some i \<Longrightarrow> set sub \<subseteq> set s"
proof -
  assume a: "strings_Index s sub = Some i"
  have "set (take (length sub) (drop i s)) \<subseteq> set s"
    by (meson set_take_subset set_drop_subset subset_trans)
  with strings_Index_take [OF a] show ?thesis by simp
qed

lemma strings_Index_prefix: "prefix sub s \<Longrightarrow> strings_Index s sub = Some 0"
  by (cases s) simp_all

lemma strings_Index_complete: "strings_Index (p @ sub @ q) sub \<noteq> None"
  by (induction p) (auto simp: strings_Index_prefix)

lemma strings_Index_occurs:
  "strings_Index s sub = Some i \<Longrightarrow> s = take i s @ sub @ drop (i + length sub) s"
proof -
  assume a: "strings_Index s sub = Some i"
  from drop_split3 [of 0 s i "length sub"] strings_Index_take [OF a]
  show ?thesis by simp
qed

text \<open>With an empty pattern the innermost detect loop never returns.\<close>

lemma detect_matches_empty_From_aux:
  assumes "detect_matches lineText searchText m lineNum lineBytes byteOffset startIndex rs = Some y"
  shows "searchText = [] \<longrightarrow> From m = [] \<longrightarrow> startIndex \<le> length lineText \<longrightarrow> False"
proof (rule detect_matches.raw_induct
    [where P = "\<lambda>lt st m ln lb bo si rs y. st = [] \<longrightarrow> From m = [] \<longrightarrow> si \<le> length lt \<longrightarrow> False",
     OF _ assms], goal_cases)
  case (1 f lt st mp ln lb bo si rs y)
  show ?case
  proof (intro impI)
    assume e: "st = []" "From mp = []" "si \<le> length lt"
    with 1(2) have "f lt [] mp ln lb bo si
            (rs @ [\<lparr>From = From mp, To = To mp, Line = ln, Column = int (si + 0) + 1,
                     LineText = lb, NewText = [], ByteOffset = bo + int (si + 0)\<rparr>]) = Some y"
      by simp
    from 1(1) [OF this] e show False by simp
  qed
qed

lemma detect_matches_empty_From:
  "From m = [] \<Longrightarrow> startIndex \<le> length lineText \<Longrightarrow>
   detect_matches lineText [] m lineNum lineBytes byteOffset startIndex rs = None"
  using detect_matches_empty_From_aux [of lineText "[]" m lineNum lineBytes byteOffset startIndex rs]
  by (cases "detect_matches lineText [] m lineNum lineBytes byteOffset startIndex rs") auto

lemma strings_ToLower_Nil [simp]: "strings_ToLower uni [] = []"
  by (simp add: strings_ToLower_def isASCII_def toLower_def)

section \<open>The pipeline\<close>

lemma scanLines_Nil: "scanLines [] = []"
  by (subst scanLines.simps) simp

lemma scanLines_single:
  "s \<noteq> [] \<Longrightarrow> newline \<notin> set s \<Longrightarrow> length s < MaxScanTokenSize \<Longrightarrow> scanLines s = [dropCR s]"
proof -
  assume a: "s \<noteq> []" "newline \<notin> set s" "length s < MaxScanTokenSize"
  then have t: "takeWhile (\<lambda>c. c \<noteq> newline) s = s" by (auto simp: takeWhile_eq_all_conv)
  have "scanLines s = dropCR s # scanLines (drop (Suc (length s)) s)"
    using a by (subst scanLines.simps) (simp add: t Let_def)
  also have "scanLines (drop (Suc (length s)) s) = []"
    by (subst scanLines.simps) simp
  finally show ?thesis .
qed

lemma NewEngine_middleware:
  "middleware (NewEngine uni cfg) =
     [validateInputMiddleware, detectReplacementsMiddleware uni,
      applyReplacementsMiddleware uni, validateOutputMiddleware]"
  "config (NewEngine uni cfg) = cfg"
  by (simp_all add: NewEngine_def Use_def)

lemma validateInput_initial:
  "\<not> Modified (Result ctx) \<Longrightarrow> validateInputMiddleware ctx = Some (Ok ctx)"
  by (simp add: validateInputMiddleware_def)

lemma ProcessFile_context_stages:
  "ProcessFile_context (NewEngine uni cfg) path content table =
     (case detect uni (CaseSensitive cfg) table content of
        None \<Rightarrow> None
      | Some Panic \<Rightarrow> Some Panic
      | Some (Ok rs) \<Rightarrow>
         (case applyReplacementsMiddleware uni (detected_context cfg path content table rs) of
            None \<Rightarrow> None
          | Some Panic \<Rightarrow> Some Panic
          | Some (Ok c) \<Rightarrow> if Error c \<noteq> None
                then Some (Ok (c\<lparr>Result := (Result c)\<lparr>Modified := False\<rparr>\<rparr>))
                else (case validateOutputMiddleware c of
                    None \<Rightarrow> None | Some Panic \<Rightarrow> Some Panic
                  | Some (Ok c') \<Rightarrow> if Error c' \<noteq> None
                then Some (Ok (c'\<lparr>Result := (Result c')\<lparr>Modified := False\<rparr>\<rparr>)) else Some (Ok c'))))"
  by (simp add: ProcessFile_context_def NewEngine_middleware validateInput_initial
        detectReplacementsMiddleware_def detected_context_def detect_def
        split: option.splits res.splits)

lemma apply_skipped:
  "rs = [] \<or> DryRun cfg \<Longrightarrow>
   applyReplacementsMiddleware uni (detected_context cfg path content table rs)
     = Some (Ok (detected_context cfg path content table rs))"
  by (auto simp: applyReplacementsMiddleware_def detected_context_def)

lemma validateOutput_skipped:
  "rs = [] \<or> DryRun cfg \<Longrightarrow>
   validateOutputMiddleware (detected_context cfg path content table rs)
     = Some (Ok (detected_context cfg path content table rs))"
  by (auto simp: validateOutputMiddleware_def detected_context_def)

lemma ProcessFile_context_skip:
  assumes "detect uni (CaseSensitive cfg) table content = Some (Ok rs)"
    and "rs = [] \<or> DryRun cfg"
  shows "ProcessFile_context (NewEngine uni cfg) path content table
           = Some (Ok (detected_context cfg path content table rs))"
proof -
  have "Error (detected_context cfg path content table rs) = None"
    by (simp add: detected_context_def)
  then show ?thesis
    by (simp add: ProcessFile_context_stages assms(1) apply_skipped [OF assms(2)]
        validateOutput_skipped [OF assms(2)])
qed

lemma apply_done:
  "rs \<noteq> [] \<Longrightarrow> \<not> DryRun cfg \<Longrightarrow>
   applyReplacementsMiddleware uni (detected_context cfg path content table rs)
     = (case GetSortedMappings_ptr table of
          Panic \<Rightarrow> Some Panic
        | Ok rules \<Rightarrow>
           (case apply_mappings uni (CaseSensitive cfg) rules content of
              None \<Rightarrow> None
            | Some Panic \<Rightarrow> Some Panic
            | Some (Ok content') \<Rightarrow>
                Some (Ok ((applied_context cfg path content table rs content')
                      \<lparr>Result := (Result (applied_context cfg path content table rs content'))
                          \<lparr>Modified := True\<rparr>\<rparr>))))"
  by (simp add: applyReplacementsMiddleware_def detected_context_def applied_context_def
      split: option.splits res.splits)

lemma validateOutput_done:
  "\<not> DryRun cfg \<Longrightarrow>
   validateOutputMiddleware ((applied_context cfg path content table rs content')
                      \<lparr>Result := (Result (applied_context cfg path content table rs content'))
                          \<lparr>Modified := True\<rparr>\<rparr>)
     = Some (Ok (applied_context cfg path content table rs content'))"
  by (simp add: validateOutputMiddleware_def applied_context_def)

lemma ProcessFile_context_apply:
  assumes "detect uni (CaseSensitive cfg) table content = Some (Ok rs)"
    and "rs \<noteq> []" and "\<not> DryRun cfg"
  shows "ProcessFile_context (NewEngine uni cfg) path content table
           = (case GetSortedMappings_ptr table of
          Panic \<Rightarrow> Some Panic
        | Ok rules \<Rightarrow>
           (case apply_mappings uni (CaseSensitive cfg) rules content of
              None \<Rightarrow> None
            | Some Panic \<Rightarrow> Some Panic
            | Some (Ok content') \<Rightarrow>
                Some (Ok (applied_context cfg path content table rs content'))))"
proof -
  have e: "Error ((applied_context cfg path content table rs c')
                      \<lparr>Result := X\<rparr>) = None"
      "Error (applied_context cfg path content table rs c') = None" for c' X
    by (simp_all add: applied_context_def)
  show ?thesis
    by (simp add: ProcessFile_context_stages assms(1) apply_done [OF assms(2,3)]
        validateOutput_done [OF assms(3)] e split: option.splits res.splits)
qed

lemma caseInsensitiveReplace_total: "caseInsensitiveReplace uni content from to \<noteq> None"
proof (cases "from = []")
  case True
  then show ?thesis by (simp add: caseInsensitiveReplace_def)
next
  case False
  then show ?thesis by (simp add: caseInsensitiveReplace_pieces)
qed

lemma apply_mappings_total: "apply_mappings uni cs rules content \<noteq> None"
proof (induction rules arbitrary: content)
  case Nil
  then show ?case by simp
next
  case (Cons m rules)
  show ?case
  proof (cases cs)
    case True
    then show ?thesis using Cons by simp
  next
    case False
    then show ?thesis using Cons caseInsensitiveReplace_total [of uni content "From m" "To m"]
      by (auto split: option.splits res.splits)
  qed
qed

section \<open>What the detect stage records\<close>

lemma detect_matches_Ok:
  assumes "detect_matches lt (if cs then From m else strings_ToLower uni (From m)) m ln lb bo 0 rs
             = Some (Ok rs')"
  shows "From m \<noteq> [] \<and>
         (\<exists>ps. match_positions lt (if cs then From m else strings_ToLower uni (From m))
                  (length (From m) - 1) 0 = Ok ps
              \<and> rs' = rs @ map (occurrence m ln lb bo) ps)"
proof (cases "From m = []")
  case True
  then have "detect_matches lt (if cs then From m else strings_ToLower uni (From m)) m ln lb bo 0 rs
      = None"
    by (simp add: detect_matches_empty_From)
  with assms show ?thesis by simp
next
  case False
  then have len: "length (From m) = Suc (length (From m) - 1)" by (cases "From m") simp_all
  from assms show ?thesis
    unfolding detect_matches_positions [OF len]
    using False
    by (cases "match_positions lt (if cs then From m else strings_ToLower uni (From m))
                  (length (From m) - 1) 0") auto
qed

lemma match_positions_found:
  "match_positions lt st k 0 = Ok ps \<Longrightarrow> ps \<noteq> [] \<Longrightarrow> strings_Index lt st \<noteq> None"
  by (subst (asm) match_positions.simps) (auto split: option.splits)

lemma occurrence_simps [simp]:
  "From (occurrence m ln lb bo p) = From m"
  "To (occurrence m ln lb bo p) = To m"
  "NewText (occurrence m ln lb bo p) = []"
  "Line (occurrence m ln lb bo p) = ln"
  "LineText (occurrence m ln lb bo p) = lb"
  "Column (occurrence m ln lb bo p) = int p + 1"
  "ByteOffset (occurrence m ln lb bo p) = bo + int p"
  by (simp_all add: occurrence_def)

text \<open>An invariant of the occurrence list: whatever holds of the occurrences recorded
  so far and of every occurrence of a rule that matches a line holds of the result.\<close>

lemma detect_mappings_invariant:
  assumes "detect_mappings uni cs rules lt ln lb bo rs = Some (Ok rs')"
    and "\<forall>r \<in> set rs. Q r"
    and "\<And>m p lt'. m \<in> set rules \<Longrightarrow> From m \<noteq> [] \<Longrightarrow> Q (occurrence m ln lb bo p)"
  shows "\<forall>r \<in> set rs'. Q r"
  using assms
proof (induction rules arbitrary: lt rs)
  case Nil
  then show ?case by simp
next
  case (Cons m rules)
  let ?st = "if cs then From m else strings_ToLower uni (From m)"
  let ?lt = "if cs then lt else strings_ToLower uni lt"
  from Cons.prems(1) obtain rs1 where
    1: "detect_matches ?lt ?st m ln lb bo 0 rs = Some (Ok rs1)" and
    2: "detect_mappings uni cs rules ?lt ln lb bo rs1 = Some (Ok rs')"
    by (auto simp: Let_def split: option.splits res.splits)
  from detect_matches_Ok [OF 1] obtain ps where
    ne: "From m \<noteq> []" and rs1: "rs1 = rs @ map (occurrence m ln lb bo) ps" by blast
  have "\<forall>r \<in> set rs1. Q r"
    using Cons.prems(2) Cons.prems(3) [of m] ne by (auto simp: rs1)
  from Cons.IH [OF 2 this] Cons.prems(3) show ?case by simp
qed

lemma detect_lines_invariant:
  assumes "detect_lines uni cs table lines n b rs = Some (Ok rs')"
    and "\<forall>r \<in> set rs. Q r"
    and "\<And>m p ln lb bo rules. GetSortedMappings_ptr table = Ok rules \<Longrightarrow> m \<in> set rules
            \<Longrightarrow> From m \<noteq> [] \<Longrightarrow> lb \<in> set lines \<Longrightarrow> Q (occurrence m ln lb bo p)"
  shows "\<forall>r \<in> set rs'. Q r"
  using assms
proof (induction lines arbitrary: n b rs)
  case Nil
  then show ?case by simp
next
  case (Cons line lines)
  from Cons.prems(1) obtain rules rs1 where
    0: "GetSortedMappings_ptr table = Ok rules" and
    1: "detect_mappings uni cs rules line (n + 1) line b rs = Some (Ok rs1)" and
    2: "detect_lines uni cs table lines (n + 1) (b + int (length line) + 1) rs1 = Some (Ok rs')"
    by (auto split: option.splits res.splits)
  have "\<forall>r \<in> set rs1. Q r"
    by (rule detect_mappings_invariant [OF 1 Cons.prems(2)])
       (simp add: Cons.prems(3) [OF 0])
  from Cons.IH [OF 2 this] Cons.prems(3) show ?case by simp
qed

lemma detect_NewText:
  "detect uni cs table content = Some (Ok rs) \<Longrightarrow> \<forall>r \<in> set rs. NewText r = []"
  unfolding detect_def
  by (erule detect_lines_invariant [where Q = "\<lambda>r. NewText r = []"]) simp_all

section \<open>Empty input and dry runs\<close>

lemma detect_lines_no_rules:
  "GetSortedMappings_ptr table = Ok [] \<Longrightarrow>
   detect_lines uni cs table lines n b rs = Some (Ok rs)"
  by (induction lines arbitrary: n b rs) simp_all

lemma detect_empty_input:
  assumes "content = [] \<or> (\<exists>mt. table = Some mt \<and> Size mt = 0
              \<and> mset (sorted mt) = mset (mappings mt))"
  shows "detect uni cs table content = Some (Ok [])"
  using assms
proof
  assume "content = []"
  then show ?thesis by (simp add: detect_def scanLines_Nil)
next
  assume "\<exists>mt. table = Some mt \<and> Size mt = 0 \<and> mset (sorted mt) = mset (mappings mt)"
  then obtain mt where mt: "table = Some mt" "Size mt = 0"
    "mset (sorted mt) = mset (mappings mt)" by blast
  then have "sorted mt = []" by (simp add: Size_def)
  with mt(1) have "GetSortedMappings_ptr table = Ok []"
    by (simp add: GetSortedMappings_ptr_def GetSortedMappings_def)
  then show ?thesis unfolding detect_def by (rule detect_lines_no_rules)
qed

text \<open>
  Claim C8. When the content is empty, or the rule table is a table of size zero,
  \<open>ProcessFile\<close> returns an outcome with \<open>modified = false\<close>, with no occurrence and
  with \<open>newSize = 0\<close>; the context carries no error and its content is the content that
  was passed in. The call returns normally: it neither panics nor fails.
\<close>

theorem ProcessFile_empty_input:
  assumes "content = [] \<or> (\<exists>mt. table = Some mt \<and> Size mt = 0
              \<and> mset (sorted mt) = mset (mappings mt))"
  shows "ProcessFile_context (NewEngine uni cfg) path content table =
     Some (Ok \<lparr>Config = cfg, FilePath = path, Content = content, Mappings = table,
        Result = \<lparr>Path = path, Replacements = [], Modified = False,
                  OriginalSize = int (length content), NewSize = 0\<rparr>,
        Error = None\<rparr>)
    \<and> ProcessFile (NewEngine uni cfg) path content table =
     Some (Ok \<lparr>Path = path, Replacements = [], Modified = False,
                  OriginalSize = int (length content), NewSize = 0\<rparr>)"
proof -
  have "detect uni (CaseSensitive cfg) table content = Some (Ok [])"
    by (rule detect_empty_input [OF assms])
  from ProcessFile_context_skip [OF this] show ?thesis
    by (simp add: ProcessFile_def detected_context_def)
qed

theorem ProcessFile_empty_input_witness:
  "ProcessFile (NewEngine toLower \<lparr>DryRun = False, Backup = False, NoBackup = False,
                    CaseSensitive = True\<rparr>)
      ''f.txt'' ''abc'' (Some \<lparr>mappings = [], sorted = []\<rparr>) =
     Some (Ok \<lparr>Path = ''f.txt'', Replacements = [], Modified = False,
                  OriginalSize = 3, NewSize = 0\<rparr>)
   \<and> ProcessFile (NewEngine toLower \<lparr>DryRun = False, Backup = False, NoBackup = False,
                    CaseSensitive = False\<rparr>)
      ''f.txt'' [] (Some \<lparr>mappings = [\<lparr>From = ''a'', To = ''b''\<rparr>],
                         sorted = [\<lparr>From = ''a'', To = ''b''\<rparr>]\<rparr>) =
     Some (Ok \<lparr>Path = ''f.txt'', Replacements = [], Modified = False,
                  OriginalSize = 0, NewSize = 0\<rparr>)"
proof -
  have 1: "''abc'' = [] \<or> (\<exists>mt. Some \<lparr>mappings = [], sorted = []\<rparr> = Some mt \<and> Size mt = 0
              \<and> mset (sorted mt) = mset (mappings mt))"
    by (simp add: Size_def)
  have 2: "([]::string) = [] \<or> (\<exists>mt. Some \<lparr>mappings = [\<lparr>From = ''a'', To = ''b''\<rparr>],
                         sorted = [\<lparr>From = ''a'', To = ''b''\<rparr>]\<rparr> = Some mt \<and> Size mt = 0
              \<and> mset (sorted mt) = mset (mappings mt))"
    by simp
  from ProcessFile_empty_input [OF 1] ProcessFile_empty_input [OF 2]
  show ?thesis by simp
qed

text \<open>
  Claim C10. In dry-run mode the outcome of \<open>ProcessFile\<close> is exactly what the detect
  stage produced: the occurrence list of the detect stage, \<open>modified\<close> true exactly when
  that list is not empty, \<open>newSize = 0\<close> and the content of the context unchanged; every
  occurrence has an empty \<open>newText\<close>. The detect stage does not read the dry-run flag:
  a run without dry-run that returns has the same occurrences with \<open>newText\<close> filled
  in, and the same \<open>modified\<close> unless the output validation demoted it.
\<close>

theorem dry_run_skips_apply:
  assumes "DryRun cfg"
  shows "ProcessFile_context (NewEngine uni cfg) path content table =
          (case detect uni (CaseSensitive cfg) table content of
             None \<Rightarrow> None
           | Some Panic \<Rightarrow> Some Panic
           | Some (Ok rs) \<Rightarrow>
               Some (Ok \<lparr>Config = cfg, FilePath = path, Content = content, Mappings = table,
                  Result = \<lparr>Path = path, Replacements = rs, Modified = (rs \<noteq> []),
                            OriginalSize = int (length content), NewSize = 0\<rparr>,
                  Error = None\<rparr>))
    \<and> (\<forall>rs. detect uni (CaseSensitive cfg) table content = Some (Ok rs) \<longrightarrow>
          (\<forall>r \<in> set rs. NewText r = [])
          \<and> (case ProcessFile_context (NewEngine uni (cfg\<lparr>DryRun := False\<rparr>)) path content table of
                None \<Rightarrow> False
              | Some Panic \<Rightarrow> True
              | Some (Ok c) \<Rightarrow>
                  Replacements (Result c) = map (\<lambda>r. r\<lparr>NewText := Content c\<rparr>) rs
                  \<and> Modified (Result c) = (rs \<noteq> [] \<and> \<not> (Content c = [] \<and> content \<noteq> []))))"
proof (intro conjI allI impI)
  show "ProcessFile_context (NewEngine uni cfg) path content table =
          (case detect uni (CaseSensitive cfg) table content of
             None \<Rightarrow> None
           | Some Panic \<Rightarrow> Some Panic
           | Some (Ok rs) \<Rightarrow>
               Some (Ok \<lparr>Config = cfg, FilePath = path, Content = content, Mappings = table,
                  Result = \<lparr>Path = path, Replacements = rs, Modified = (rs \<noteq> []),
                            OriginalSize = int (length content), NewSize = 0\<rparr>,
                  Error = None\<rparr>))"
  proof (cases "detect uni (CaseSensitive cfg) table content")
    case None
    then show ?thesis by (simp add: ProcessFile_context_stages)
  next
    case (Some a)
    show ?thesis
    proof (cases a)
      case Panic
      with Some show ?thesis by (simp add: ProcessFile_context_stages)
    next
      case (Ok rs)
      with Some have "detect uni (CaseSensitive cfg) table content = Some (Ok rs)" by simp
      from ProcessFile_context_skip [OF this] assms Some Ok show ?thesis
        by (simp add: detected_context_def)
    qed
  qed
next
  fix rs
  assume d: "detect uni (CaseSensitive cfg) table content = Some (Ok rs)"
  from detect_NewText [OF d] show "\<forall>r \<in> set rs. NewText r = []" .
  let ?cfg = "cfg\<lparr>DryRun := False\<rparr>"
  have d': "detect uni (CaseSensitive ?cfg) table content = Some (Ok rs)"
    using d by simp
  show "case ProcessFile_context (NewEngine uni ?cfg) path content table of
                None \<Rightarrow> False
              | Some Panic \<Rightarrow> True
              | Some (Ok c) \<Rightarrow>
                  Replacements (Result c) = map (\<lambda>r. r\<lparr>NewText := Content c\<rparr>) rs
                  \<and> Modified (Result c) = (rs \<noteq> [] \<and> \<not> (Content c = [] \<and> content \<noteq> []))"
  proof (cases "rs = []")
    case True
    then have "rs = [] \<or> DryRun ?cfg" by simp
    from ProcessFile_context_skip [OF d' this] True show ?thesis
      by (simp add: detected_context_def)
  next
    case False
    have nd: "\<not> DryRun ?cfg" by simp
    show ?thesis
    proof (cases "GetSortedMappings_ptr table")
      case Panic
      then show ?thesis unfolding ProcessFile_context_apply [OF d' False nd] by simp
    next
      case (Ok rules)
      from apply_mappings_total [of uni "CaseSensitive cfg" rules content]
      obtain a where a: "apply_mappings uni (CaseSensitive cfg) rules content = Some a"
        by blast
      show ?thesis
        unfolding ProcessFile_context_apply [OF d' False nd]
        using Ok a False by (cases a) (simp_all add: applied_context_def)
    qed
  qed
qed

theorem dry_run_skips_apply_witness:
  "DryRun \<lparr>DryRun = True, Backup = False, NoBackup = False, CaseSensitive = False\<rparr>
   \<and> ProcessFile_context
        (NewEngine toLower \<lparr>DryRun = True, Backup = False, NoBackup = False, CaseSensitive = False\<rparr>)
        ''test.txt'' ''Hi a''
        (Some \<lparr>mappings = [\<lparr>From = ''a'', To = ''b''\<rparr>, \<lparr>From = ''hi'', To = ''yo''\<rparr>],
               sorted = [\<lparr>From = ''hi'', To = ''yo''\<rparr>, \<lparr>From = ''a'', To = ''b''\<rparr>]\<rparr>)
      = Some (Ok \<lparr>Config = \<lparr>DryRun = True, Backup = False, NoBackup = False, CaseSensitive = False\<rparr>,
            FilePath = ''test.txt'', Content = ''Hi a'',
            Mappings = Some \<lparr>mappings = [\<lparr>From = ''a'', To = ''b''\<rparr>, \<lparr>From = ''hi'', To = ''yo''\<rparr>],
               sorted = [\<lparr>From = ''hi'', To = ''yo''\<rparr>, \<lparr>From = ''a'', To = ''b''\<rparr>]\<rparr>,
            Result = \<lparr>Path = ''test.txt'',
               Replacements =
                 [\<lparr>From = ''hi'', To = ''yo'', Line = 1, Column = 1, LineText = ''Hi a'',
                   NewText = [], ByteOffset = 0\<rparr>,
                  \<lparr>From = ''a'', To = ''b'', Line = 1, Column = 4, LineText = ''Hi a'',
                   NewText = [], ByteOffset = 3\<rparr>],
               Modified = True, OriginalSize = 4, NewSize = 0\<rparr>,
            Error = None\<rparr>)
   \<and> (case ProcessFile_context
        (NewEngine toLower (\<lparr>DryRun = True, Backup = False, NoBackup = False, CaseSensitive = False\<rparr>
                              \<lparr>DryRun := False\<rparr>))
        ''test.txt'' ''Hi a''
        (Some \<lparr>mappings = [\<lparr>From = ''a'', To = ''b''\<rparr>, \<lparr>From = ''hi'', To = ''yo''\<rparr>],
               sorted = [\<lparr>From = ''hi'', To = ''yo''\<rparr>, \<lparr>From = ''a'', To = ''b''\<rparr>]\<rparr>) of
         None \<Rightarrow> False
       | Some Panic \<Rightarrow> True
       | Some (Ok c) \<Rightarrow>
           Replacements (Result c) = map (\<lambda>r. r\<lparr>NewText := Content c\<rparr>)
                 [\<lparr>From = ''hi'', To = ''yo'', Line = 1, Column = 1, LineText = ''Hi a'',
                   NewText = [], ByteOffset = 0\<rparr>,
                  \<lparr>From = ''a'', To = ''b'', Line = 1, Column = 4, LineText = ''Hi a'',
                   NewText = [], ByteOffset = 3\<rparr>]
           \<and> Modified (Result c) = (Content c \<noteq> []))"
proof -
  let ?cfg = "\<lparr>DryRun = True, Backup = False, NoBackup = False, CaseSensitive = False\<rparr>"
  let ?tbl = "Some \<lparr>mappings = [\<lparr>From = ''a'', To = ''b''\<rparr>, \<lparr>From = ''hi'', To = ''yo''\<rparr>],
               sorted = [\<lparr>From = ''hi'', To = ''yo''\<rparr>, \<lparr>From = ''a'', To = ''b''\<rparr>]\<rparr>"
  have dry: "DryRun ?cfg" by simp
  have d: "detect toLower (CaseSensitive ?cfg) ?tbl ''Hi a'' =
      Some (Ok [\<lparr>From = ''hi'', To = ''yo'', Line = 1, Column = 1, LineText = ''Hi a'',
                   NewText = [], ByteOffset = 0\<rparr>,
                  \<lparr>From = ''a'', To = ''b'', Line = 1, Column = 4, LineText = ''Hi a'',
                   NewText = [], ByteOffset = 3\<rparr>])"
  proof -
    have sl: "scanLines ''Hi a'' = [''Hi a'']"
      by (simp add: scanLines_single newline_def MaxScanTokenSize_def dropCR_def
          carriage_return_def)
    show ?thesis unfolding detect_def sl by code_simp
  qed
  note t = dry_run_skips_apply [OF dry, of toLower "''test.txt''" "''Hi a''" ?tbl]
  from t [THEN conjunct1] have 1: "ProcessFile_context (NewEngine toLower ?cfg)
        ''test.txt'' ''Hi a'' ?tbl
      = Some (Ok \<lparr>Config = ?cfg,
            FilePath = ''test.txt'', Content = ''Hi a'',
            Mappings = ?tbl,
            Result = \<lparr>Path = ''test.txt'',
               Replacements =
                 [\<lparr>From = ''hi'', To = ''yo'', Line = 1, Column = 1, LineText = ''Hi a'',
                   NewText = [], ByteOffset = 0\<rparr>,
                  \<lparr>From = ''a'', To = ''b'', Line = 1, Column = 4, LineText = ''Hi a'',
                   NewText = [], ByteOffset = 3\<rparr>],
               Modified = True, OriginalSize = 4, NewSize = 0\<rparr>,
            Error = None\<rparr>)"
    unfolding d by simp
  from t [THEN conjunct2, rule_format, OF d, THEN conjunct2]
  have 2: "case ProcessFile_context (NewEngine toLower (?cfg\<lparr>DryRun := False\<rparr>))
        ''test.txt'' ''Hi a'' ?tbl of
         None \<Rightarrow> False
       | Some Panic \<Rightarrow> True
       | Some (Ok c) \<Rightarrow>
           Replacements (Result c) = map (\<lambda>r. r\<lparr>NewText := Content c\<rparr>)
                 [\<lparr>From = ''hi'', To = ''yo'', Line = 1, Column = 1, LineText = ''Hi a'',
                   NewText = [], ByteOffset = 0\<rparr>,
                  \<lparr>From = ''a'', To = ''b'', Line = 1, Column = 4, LineText = ''Hi a'',
                   NewText = [], ByteOffset = 3\<rparr>]
           \<and> Modified (Result c) = (Content c \<noteq> [])"
    by (simp split: option.splits res.splits)
  from dry 1 2 show ?thesis by (intro conjI)
qed

section \<open>Detection works line by line\<close>

lemma dropCR_prefix: "prefix (dropCR l) l"
  by (simp add: dropCR_def prefixeq_butlast)

lemma scanLines_mem:
  assumes "l \<in> set (scanLines data)"
  shows "data \<noteq> [] \<and> \<not> MaxScanTokenSize \<le> length (takeWhile (\<lambda>c. c \<noteq> newline) data)
     \<and> (l = dropCR (takeWhile (\<lambda>c. c \<noteq> newline) data)
        \<or> l \<in> set (scanLines (drop (Suc (length (takeWhile (\<lambda>c. c \<noteq> newline) data))) data)))"
proof (cases "data = [] \<or> MaxScanTokenSize \<le> length (takeWhile (\<lambda>c. c \<noteq> newline) data)")
  case True
  then have "scanLines data = []" by (subst scanLines.simps) auto
  with assms show ?thesis by simp
next
  case False
  then have "scanLines data = dropCR (takeWhile (\<lambda>c. c \<noteq> newline) data)
      # scanLines (drop (Suc (length (takeWhile (\<lambda>c. c \<noteq> newline) data))) data)"
    by (subst scanLines.simps) (simp add: Let_def)
  with assms False show ?thesis by auto
qed

lemma scanLines_no_newline: "l \<in> set (scanLines data) \<Longrightarrow> newline \<notin> set l"
proof (induction data rule: scanLines.induct)
  case (1 data)
  let ?line = "takeWhile (\<lambda>c. c \<noteq> newline) data"
  from scanLines_mem [OF "1.prems"]
  have ne: "data \<noteq> []" and fit: "\<not> MaxScanTokenSize \<le> length ?line"
    and l: "l = dropCR ?line \<or> l \<in> set (scanLines (drop (Suc (length ?line)) data))"
    by blast+
  from l show ?case
  proof
    assume "l = dropCR ?line"
    then have "set l \<subseteq> set ?line" using dropCR_prefix [of ?line] by (auto dest: set_mono_prefix)
    moreover have "newline \<notin> set ?line" by (auto dest: set_takeWhileD)
    ultimately show ?thesis by blast
  next
    assume "l \<in> set (scanLines (drop (Suc (length ?line)) data))"
    with "1.IH" [OF ne refl fit] show ?thesis by simp
  qed
qed

lemma scanLines_sublist: "l \<in> set (scanLines data) \<Longrightarrow> \<exists>p q. data = p @ l @ q"
proof (induction data rule: scanLines.induct)
  case (1 data)
  let ?line = "takeWhile (\<lambda>c. c \<noteq> newline) data"
  from scanLines_mem [OF "1.prems"]
  have ne: "data \<noteq> []" and fit: "\<not> MaxScanTokenSize \<le> length ?line"
    and l: "l = dropCR ?line \<or> l \<in> set (scanLines (drop (Suc (length ?line)) data))"
    by blast+
  from l show ?case
  proof
    assume "l = dropCR ?line"
    with dropCR_prefix [of ?line] obtain s where "?line = l @ s" by (auto simp: prefix_def)
    moreover have "data = ?line @ dropWhile (\<lambda>c. c \<noteq> newline) data" by simp
    ultimately have "data = [] @ l @ (s @ dropWhile (\<lambda>c. c \<noteq> newline) data)" by simp
    then show ?thesis by blast
  next
    assume "l \<in> set (scanLines (drop (Suc (length ?line)) data))"
    with "1.IH" [OF ne refl fit] obtain p q where "drop (Suc (length ?line)) data = p @ l @ q"
      by blast
    then have "data = (take (Suc (length ?line)) data @ p) @ l @ q"
      by (metis append.assoc append_take_drop_id)
    then show ?thesis by blast
  qed
qed

lemma strings_Index_sublist:
  "strings_Index l sub = Some i \<Longrightarrow> strings_Index (p @ l @ q) sub \<noteq> None"
proof -
  assume "strings_Index l sub = Some i"
  from strings_Index_occurs [OF this] obtain a b where "l = a @ sub @ b" by blast
  then have "p @ l @ q = (p @ a) @ sub @ (b @ q)" by simp
  then show ?thesis using strings_Index_complete [of "p @ a" sub "b @ q"] by simp
qed

lemma lowerByte_newline: "(lowerByte c = newline) = (c = newline)"
proof -
  have "of_char (lowerByte c) = (10::nat) \<longleftrightarrow> of_char c = (10::nat)"
    by (auto simp: lowerByte_def)
  moreover have "of_char newline = (10::nat)" by (simp add: newline_def)
  ultimately show ?thesis by (metis of_char_eq_iff)
qed

lemma toLower_newline: "(newline \<in> set (toLower s)) = (newline \<in> set s)"
proof -
  have "(newline \<in> lowerByte ` set s) = (newline \<in> set s)"
    using lowerByte_newline by (metis (full_types) image_iff)
  then show ?thesis by (simp add: toLower_def)
qed

lemma strings_ToLower_newline:
  "\<forall>s. (newline \<in> set (uni s)) = (newline \<in> set s) \<Longrightarrow>
   (newline \<in> set (strings_ToLower uni s)) = (newline \<in> set s)"
  by (simp add: strings_ToLower_def toLower_newline)

lemma detect_matches_no_match:
  "strings_Index lt st = None \<Longrightarrow> detect_matches lt st m ln lb bo 0 rs = Some (Ok rs)"
  by (subst detect_matches.simps) simp

text \<open>If no rule matches the line, however often the line has been folded, the loop
  over the rules records nothing. \<open>G\<close> is a property of the line that folding keeps.\<close>

lemma detect_mappings_none:
  assumes "G lt"
    and "\<And>l. G l \<Longrightarrow> G (if cs then l else strings_ToLower uni l)"
    and "\<And>l m. G l \<Longrightarrow> m \<in> set rules \<Longrightarrow>
           strings_Index l (if cs then From m else strings_ToLower uni (From m)) = None"
  shows "detect_mappings uni cs rules lt ln lb bo rs = Some (Ok rs)"
  using assms
proof (induction rules arbitrary: lt)
  case Nil
  then show ?case by simp
next
  case (Cons m rules)
  let ?lt = "if cs then lt else strings_ToLower uni lt"
  have g: "G ?lt" by (rule Cons.prems(2) [OF Cons.prems(1)])
  have "strings_Index ?lt (if cs then From m else strings_ToLower uni (From m)) = None"
    by (rule Cons.prems(3) [OF g]) simp
  then have 1: "detect_matches ?lt (if cs then From m else strings_ToLower uni (From m))
                  m ln lb bo 0 rs = Some (Ok rs)"
    by (rule detect_matches_no_match)
  have 2: "detect_mappings uni cs rules ?lt ln lb bo rs = Some (Ok rs)"
    by (rule Cons.IH [OF g Cons.prems(2)]) (simp_all add: Cons.prems(3))
  show ?case using 1 2 by (simp add: Let_def)
qed

lemma detect_lines_none:
  assumes "GetSortedMappings_ptr table = Ok rules"
    and "\<And>line. line \<in> set lines \<Longrightarrow> G line line"
    and "\<And>line l. G line l \<Longrightarrow> G line (if cs then l else strings_ToLower uni l)"
    and "\<And>line l m. G line l \<Longrightarrow> m \<in> set rules \<Longrightarrow>
           strings_Index l (if cs then From m else strings_ToLower uni (From m)) = None"
  shows "detect_lines uni cs table lines n b rs = Some (Ok rs)"
  using assms(2)
proof (induction lines arbitrary: n b)
  case Nil
  then show ?case by simp
next
  case (Cons line lines)
  have "detect_mappings uni cs rules line (n + 1) line b rs = Some (Ok rs)"
    by (rule detect_mappings_none [where G = "G line"])
       (simp_all add: Cons.prems assms(3) assms(4))
  moreover have "detect_lines uni cs table lines (n + 1) (b + int (length line) + 1) rs
      = Some (Ok rs)"
    by (rule Cons.IH) (simp add: Cons.prems)
  ultimately show ?case using assms(1) by simp
qed

text \<open>Every occurrence that the detect stage records comes from a rule that matched a
  (folded) line.\<close>

lemma detect_mappings_matched:
  assumes "detect_mappings uni cs rules lt ln lb bo rs = Some (Ok rs')"
    and "\<forall>r \<in> set rs. Q r"
    and "G lt"
    and "\<And>l. G l \<Longrightarrow> G (if cs then l else strings_ToLower uni l)"
    and "\<And>m p l. m \<in> set rules \<Longrightarrow> From m \<noteq> [] \<Longrightarrow> G l \<Longrightarrow>
           strings_Index l (if cs then From m else strings_ToLower uni (From m)) \<noteq> None \<Longrightarrow>
           Q (occurrence m ln lb bo p)"
  shows "\<forall>r \<in> set rs'. Q r"
  using assms
proof (induction rules arbitrary: lt rs)
  case Nil
  then show ?case by simp
next
  case (Cons m rules)
  let ?st = "if cs then From m else strings_ToLower uni (From m)"
  let ?lt = "if cs then lt else strings_ToLower uni lt"
  have g: "G ?lt" by (rule Cons.prems(4) [OF Cons.prems(3)])
  from Cons.prems(1) obtain rs1 where
    1: "detect_matches ?lt ?st m ln lb bo 0 rs = Some (Ok rs1)" and
    2: "detect_mappings uni cs rules ?lt ln lb bo rs1 = Some (Ok rs')"
    by (auto simp: Let_def split: option.splits res.splits)
  from detect_matches_Ok [OF 1] obtain ps where
    ne: "From m \<noteq> []" and ps: "match_positions ?lt ?st (length (From m) - 1) 0 = Ok ps"
    and rs1: "rs1 = rs @ map (occurrence m ln lb bo) ps" by blast
  have q1: "\<forall>r \<in> set rs1. Q r"
  proof (cases "ps = []")
    case True
    with rs1 Cons.prems(2) show ?thesis by simp
  next
    case False
    from match_positions_found [OF ps False]
    have "\<And>p. Q (occurrence m ln lb bo p)"
      using Cons.prems(5) [of m ?lt] ne g by simp
    with rs1 Cons.prems(2) show ?thesis by auto
  qed
  show ?case
    by (rule Cons.IH [OF 2 q1 g Cons.prems(4)]) (simp_all add: Cons.prems(5))
qed

lemma detect_lines_matched:
  assumes "detect_lines uni cs table lines n b rs = Some (Ok rs')"
    and "\<forall>r \<in> set rs. Q r"
    and "\<And>line. line \<in> set lines \<Longrightarrow> G line line"
    and "\<And>line l. G line l \<Longrightarrow> G line (if cs then l else strings_ToLower uni l)"
    and "\<And>m p ln lb bo rules l. GetSortedMappings_ptr table = Ok rules \<Longrightarrow> m \<in> set rules \<Longrightarrow>
           From m \<noteq> [] \<Longrightarrow> lb \<in> set lines \<Longrightarrow> G lb l \<Longrightarrow>
           strings_Index l (if cs then From m else strings_ToLower uni (From m)) \<noteq> None \<Longrightarrow>
           Q (occurrence m ln lb bo p)"
  shows "\<forall>r \<in> set rs'. Q r"
  using assms(1,2,3,5)
proof (induction lines arbitrary: n b rs)
  case Nil
  then show ?case by simp
next
  case (Cons line lines)
  from Cons.prems(1) obtain rules rs1 where
    0: "GetSortedMappings_ptr table = Ok rules" and
    1: "detect_mappings uni cs rules line (n + 1) line b rs = Some (Ok rs1)" and
    2: "detect_lines uni cs table lines (n + 1) (b + int (length line) + 1) rs1 = Some (Ok rs')"
    by (auto split: option.splits res.splits)
  have q1: "\<forall>r \<in> set rs1. Q r"
    by (rule detect_mappings_matched [OF 1 Cons.prems(2), where G = "G line"])
       (simp_all add: Cons.prems(3) assms(4) Cons.prems(4) [OF 0])
  show ?case
    by (rule Cons.IH [OF 2 q1]) (simp_all add: Cons.prems(3) Cons.prems(4))
qed

lemma ProcessFile_context_Ok:
  assumes "ProcessFile_context (NewEngine uni cfg) path content table = Some (Ok c)"
  shows "\<exists>rs. detect uni (CaseSensitive cfg) table content = Some (Ok rs)
          \<and> ((rs = [] \<or> DryRun cfg) \<and> c = detected_context cfg path content table rs
             \<or> rs \<noteq> [] \<and> \<not> DryRun cfg
               \<and> (\<exists>rules content'. GetSortedMappings_ptr table = Ok rules
                     \<and> apply_mappings uni (CaseSensitive cfg) rules content = Some (Ok content')
                     \<and> c = applied_context cfg path content table rs content'))"
proof -
  from assms obtain rs where d: "detect uni (CaseSensitive cfg) table content = Some (Ok rs)"
    by (auto simp: ProcessFile_context_stages split: option.splits res.splits)
  show ?thesis
  proof (cases "rs = [] \<or> DryRun cfg")
    case True
    from ProcessFile_context_skip [OF d True] assms d True show ?thesis by auto
  next
    case False
    then have f: "rs \<noteq> []" "\<not> DryRun cfg" by simp_all
    from assms show ?thesis
      unfolding ProcessFile_context_apply [OF d f]
      using d f by (auto split: option.splits res.splits)
  qed
qed

lemma fold_newline:
  assumes "cs \<or> (\<forall>s. (newline \<in> set (uni s)) = (newline \<in> set s))"
  shows "(newline \<in> set (if cs then l else strings_ToLower uni l)) = (newline \<in> set l)"
proof (cases cs)
  case True
  then show ?thesis by simp
next
  case False
  with assms have "\<forall>s. (newline \<in> set (uni s)) = (newline \<in> set s)" by simp
  from strings_ToLower_newline [OF this] False show ?thesis by simp
qed

lemma detect_no_newline:
  assumes a: "cs \<or> (\<forall>s. (newline \<in> set (uni s)) = (newline \<in> set s))"
    and d: "detect uni cs table content = Some (Ok rs)"
  shows "\<forall>r \<in> set rs. newline \<notin> set (From r)"
proof (rule detect_lines_matched [OF d [unfolded detect_def],
         where Q = "\<lambda>r. newline \<notin> set (From r)" and G = "\<lambda>line l. newline \<notin> set l"])
  show "\<forall>r\<in>set []. newline \<notin> set (Mapping.From r)" by simp
next
  fix line assume "line \<in> set (scanLines content)"
  then show "newline \<notin> set line" by (rule scanLines_no_newline)
next
  fix line l :: string assume "newline \<notin> set l"
  then show "newline \<notin> set (if cs then l else strings_ToLower uni l)"
    by (simp only: fold_newline [OF a] not_False_eq_True)
next
  fix m :: Mapping and p :: nat and ln :: int and lb :: string and bo :: int
    and rules :: "Mapping list" and l :: string
  assume l: "newline \<notin> set l"
    and i: "strings_Index l (if cs then From m else strings_ToLower uni (From m)) \<noteq> None"
  then obtain j where "strings_Index l (if cs then From m else strings_ToLower uni (From m)) = Some j"
    by blast
  from strings_Index_set [OF this] l
  have "newline \<notin> set (if cs then From m else strings_ToLower uni (From m))" by blast
  then have "newline \<notin> set (From m)"
    by (simp only: fold_newline [OF a] not_False_eq_True)
  then show "newline \<notin> set (From (occurrence m ln lb bo p))" by simp
qed

lemma detect_across_lines_only:
  assumes a: "cs \<or> (\<forall>s. (newline \<in> set (uni s)) = (newline \<in> set s))"
    and r: "\<forall>m \<in> set (sorted mt). newline \<in> set (From m)
               \<or> (cs \<and> strings_Index content (From m) = None)"
  shows "detect uni cs (Some mt) content = Some (Ok [])"
  unfolding detect_def
proof (rule detect_lines_none [where rules = "sorted mt" and
        G = "\<lambda>line l. newline \<notin> set l \<and> (cs \<longrightarrow> (\<exists>p q. content = p @ l @ q))"])
  show "GetSortedMappings_ptr (Some mt) = Ok (sorted mt)"
    by (simp add: GetSortedMappings_ptr_def GetSortedMappings_def)
next
  fix line assume "line \<in> set (scanLines content)"
  then show "newline \<notin> set line \<and> (cs \<longrightarrow> (\<exists>p q. content = p @ line @ q))"
    using scanLines_no_newline scanLines_sublist by blast
next
  fix line l :: string
  assume "newline \<notin> set l \<and> (cs \<longrightarrow> (\<exists>p q. content = p @ l @ q))"
  then have 1: "newline \<notin> set (if cs then l else strings_ToLower uni l)"
    and 2: "cs \<longrightarrow> (\<exists>p q. content = p @ l @ q)"
    by (simp_all add: fold_newline [OF a])
  from 2 have "cs \<longrightarrow> (\<exists>p q. content = p @ (if cs then l else strings_ToLower uni l) @ q)"
    by (cases cs) simp_all
  with 1 show "newline \<notin> set (if cs then l else strings_ToLower uni l) \<and>
       (cs \<longrightarrow> (\<exists>p q. content = p @ (if cs then l else strings_ToLower uni l) @ q))"
    by (rule conjI)
next
  fix line l :: string and m :: Mapping
  assume g: "newline \<notin> set l \<and> (cs \<longrightarrow> (\<exists>p q. content = p @ l @ q))"
    and m: "m \<in> set (sorted mt)"
  show "strings_Index l (if cs then From m else strings_ToLower uni (From m)) = None"
  proof (rule ccontr)
    assume "strings_Index l (if cs then From m else strings_ToLower uni (From m)) \<noteq> None"
    then obtain j where
      j: "strings_Index l (if cs then From m else strings_ToLower uni (From m)) = Some j"
      by blast
    from strings_Index_set [OF j] g
    have "newline \<notin> set (if cs then From m else strings_ToLower uni (From m))" by blast
    then have nn: "newline \<notin> set (From m)"
      by (simp only: fold_newline [OF a] not_False_eq_True)
    with r m have cs: "cs" and none: "strings_Index content (From m) = None" by blast+
    from g cs obtain p q where "content = p @ l @ q" by blast
    moreover from j cs have "strings_Index l (From m) = Some j" by simp
    ultimately have "strings_Index content (From m) \<noteq> None"
      using strings_Index_sublist by blast
    with none show False by simp
  qed
qed

text \<open>
  Claim C9. Detection scans the content line by line, so an occurrence of a rule whose
  \<open>from\<close> contains a newline is never recorded. Consequently, when every rule either
  contains a newline or (in case-sensitive mode) does not occur in the content at all,
  \<open>ProcessFile\<close> returns no occurrence and \<open>modified = false\<close>, the apply stage is
  skipped and the content is unchanged, although replacing over the whole content can
  change it: replacing \<open>a\<newline>b\<close> by \<open>x\<close> in the content \<open>a\<newline>b\<close> gives \<open>x\<close>.
  In case-insensitive mode the statement needs what holds of Unicode lower-casing:
  it neither creates nor removes a newline byte.
\<close>

theorem detection_is_line_by_line:
  assumes "CaseSensitive cfg \<or> (\<forall>s. (newline \<in> set (uni s)) = (newline \<in> set s))"
  shows "(\<forall>c. ProcessFile_context (NewEngine uni cfg) path content table = Some (Ok c) \<longrightarrow>
            (\<forall>r \<in> set (Replacements (Result c)). newline \<notin> set (From r)))
       \<and> (\<forall>mt. table = Some mt
              \<and> (\<forall>m \<in> set (sorted mt). newline \<in> set (From m)
                     \<or> (CaseSensitive cfg \<and> strings_Index content (From m) = None)) \<longrightarrow>
            ProcessFile_context (NewEngine uni cfg) path content table =
              Some (Ok \<lparr>Config = cfg, FilePath = path, Content = content, Mappings = table,
                 Result = \<lparr>Path = path, Replacements = [], Modified = False,
                           OriginalSize = int (length content), NewSize = 0\<rparr>,
                 Error = None\<rparr>))
       \<and> apply_mappings uni True [\<lparr>From = [CHR ''a'', newline, CHR ''b''], To = ''x''\<rparr>]
            [CHR ''a'', newline, CHR ''b''] = Some (Ok ''x'')"
proof (intro conjI allI impI)
  fix c
  assume "ProcessFile_context (NewEngine uni cfg) path content table = Some (Ok c)"
  from ProcessFile_context_Ok [OF this] obtain rs where
    d: "detect uni (CaseSensitive cfg) table content = Some (Ok rs)" and
    c: "c = detected_context cfg path content table rs
        \<or> (\<exists>content'. c = applied_context cfg path content table rs content')"
    by blast
  from detect_no_newline [OF assms d] have n: "\<forall>r \<in> set rs. newline \<notin> set (From r)" .
  from c show "\<forall>r \<in> set (Replacements (Result c)). newline \<notin> set (From r)"
  proof
    assume "c = detected_context cfg path content table rs"
    with n show ?thesis by (simp add: detected_context_def)
  next
    assume "\<exists>content'. c = applied_context cfg path content table rs content'"
    with n show ?thesis by (auto simp: applied_context_def)
  qed
next
  fix mt
  assume h: "table = Some mt
              \<and> (\<forall>m \<in> set (sorted mt). newline \<in> set (From m)
                     \<or> (CaseSensitive cfg \<and> strings_Index content (From m) = None))"
  then have "detect uni (CaseSensitive cfg) table content = Some (Ok [])"
    using detect_across_lines_only [OF assms, of mt content] by simp
  from ProcessFile_context_skip [OF this]
  show "ProcessFile_context (NewEngine uni cfg) path content table =
              Some (Ok \<lparr>Config = cfg, FilePath = path, Content = content, Mappings = table,
                 Result = \<lparr>Path = path, Replacements = [], Modified = False,
                           OriginalSize = int (length content), NewSize = 0\<rparr>,
                 Error = None\<rparr>)"
    by (simp add: detected_context_def)
next
  show "apply_mappings uni True [\<lparr>From = [CHR ''a'', newline, CHR ''b''], To = ''x''\<rparr>]
            [CHR ''a'', newline, CHR ''b''] = Some (Ok ''x'')"
    by code_simp
qed

theorem detection_is_line_by_line_witness:
  "CaseSensitive \<lparr>DryRun = False, Backup = False, NoBackup = False, CaseSensitive = True\<rparr>
   \<and> ProcessFile_context
       (NewEngine toLower \<lparr>DryRun = False, Backup = False, NoBackup = False, CaseSensitive = True\<rparr>)
       ''f'' [CHR ''a'', newline, CHR ''b'']
       (Some \<lparr>mappings = [\<lparr>From = [CHR ''a'', newline, CHR ''b''], To = ''x''\<rparr>],
              sorted = [\<lparr>From = [CHR ''a'', newline, CHR ''b''], To = ''x''\<rparr>]\<rparr>)
     = Some (Ok \<lparr>Config = \<lparr>DryRun = False, Backup = False, NoBackup = False, CaseSensitive = True\<rparr>,
          FilePath = ''f'', Content = [CHR ''a'', newline, CHR ''b''],
          Mappings = Some \<lparr>mappings = [\<lparr>From = [CHR ''a'', newline, CHR ''b''], To = ''x''\<rparr>],
              sorted = [\<lparr>From = [CHR ''a'', newline, CHR ''b''], To = ''x''\<rparr>]\<rparr>,
          Result = \<lparr>Path = ''f'', Replacements = [], Modified = False,
                    OriginalSize = 3, NewSize = 0\<rparr>,
          Error = None\<rparr>)
   \<and> apply_mappings toLower True [\<lparr>From = [CHR ''a'', newline, CHR ''b''], To = ''x''\<rparr>]
            [CHR ''a'', newline, CHR ''b''] = Some (Ok ''x'')"
proof -
  let ?cfg = "\<lparr>DryRun = False, Backup = False, NoBackup = False, CaseSensitive = True\<rparr>"
  let ?mt = "\<lparr>mappings = [\<lparr>From = [CHR ''a'', newline, CHR ''b''], To = ''x''\<rparr>],
              sorted = [\<lparr>From = [CHR ''a'', newline, CHR ''b''], To = ''x''\<rparr>]\<rparr>"
  have cs: "CaseSensitive ?cfg \<or> (\<forall>s. (newline \<in> set (toLower s)) = (newline \<in> set s))"
    by simp
  note t = detection_is_line_by_line [OF cs, where path = "''f''"
      and content = "[CHR ''a'', newline, CHR ''b'']" and table = "Some ?mt"]
  have h: "Some ?mt = Some ?mt
              \<and> (\<forall>m \<in> set (sorted ?mt). newline \<in> set (From m)
                     \<or> (CaseSensitive ?cfg
                          \<and> strings_Index [CHR ''a'', newline, CHR ''b''] (From m) = None))"
    by simp
  from t [THEN conjunct2, THEN conjunct1, rule_format, OF h]
    t [THEN conjunct2, THEN conjunct2]
  show ?thesis by simp
qed

section \<open>Case-sensitive runs\<close>













section \<open>The two substitution paths\<close>

lemma detect_single_line:
  assumes "line \<noteq> []" "newline \<notin> set line" "length line < MaxScanTokenSize"
  shows "detect uni cs (Some mt) line =
     (case detect_mappings uni cs (sorted mt) (dropCR line) 1 (dropCR line) 0 [] of
        None \<Rightarrow> None | Some Panic \<Rightarrow> Some Panic | Some (Ok rs) \<Rightarrow> Some (Ok rs))"
  by (simp add: detect_def scanLines_single [OF assms] GetSortedMappings_ptr_def
      GetSortedMappings_def split: option.splits res.splits)

lemma engine_writer_failing_input:
  assumes "uni [CHR 0xC3, CHR 0x89] = [CHR 0xC3, CHR 0xA9]"
    and "uni [CHR 0xC3, CHR 0xA9] = [CHR 0xC3, CHR 0xA9]"
  shows "apply_mappings uni False [\<lparr>From = [CHR 0xC3, CHR 0xA9], To = ''e''\<rparr>] [CHR 0xC3, CHR 0x89]
           = Some (Ok ''e'')"
    and "writeFile_content False [\<lparr>From = [CHR 0xC3, CHR 0xA9], To = ''e''\<rparr>] [CHR 0xC3, CHR 0x89]
           = Some [CHR 0xC3, CHR 0x89]"
    and "detect uni False
           (Some \<lparr>mappings = [\<lparr>From = [CHR 0xC3, CHR 0xA9], To = ''e''\<rparr>],
                  sorted = [\<lparr>From = [CHR 0xC3, CHR 0xA9], To = ''e''\<rparr>]\<rparr>) [CHR 0xC3, CHR 0x89]
           = Some (Ok [\<lparr>From = [CHR 0xC3, CHR 0xA9], To = ''e'', Line = 1, Column = 1,
                        LineText = [CHR 0xC3, CHR 0x89], NewText = [], ByteOffset = 0\<rparr>])"
proof -
  have low1: "strings_ToLower uni [CHR 0xC3, CHR 0x89] = [CHR 0xC3, CHR 0xA9]"
    using assms(1) by (simp add: strings_ToLower_def isASCII_def)
  have low2: "strings_ToLower uni [CHR 0xC3, CHR 0xA9] = [CHR 0xC3, CHR 0xA9]"
    using assms(2) by (simp add: strings_ToLower_def isASCII_def)
  have loop: "caseInsensitiveReplace_loop [CHR 0xC3, CHR 0x89] [CHR 0xC3, CHR 0xA9] ''e''
          [CHR 0xC3, CHR 0xA9] [CHR 0xC3, CHR 0xA9] 0 [] = Some (Ok ''e'')"
    by code_simp
  show "apply_mappings uni False [\<lparr>From = [CHR 0xC3, CHR 0xA9], To = ''e''\<rparr>] [CHR 0xC3, CHR 0x89]
           = Some (Ok ''e'')"
    by (simp add: caseInsensitiveReplace_def low1 low2 loop)
  show "writeFile_content False [\<lparr>From = [CHR 0xC3, CHR 0xA9], To = ''e''\<rparr>] [CHR 0xC3, CHR 0x89]
           = Some [CHR 0xC3, CHR 0x89]"
    by code_simp
  have m: "detect_matches [CHR 0xC3, CHR 0xA9] [CHR 0xC3, CHR 0xA9]
             \<lparr>From = [CHR 0xC3, CHR 0xA9], To = ''e''\<rparr> 1 [CHR 0xC3, CHR 0x89] 0 0 []
           = Some (Ok [\<lparr>From = [CHR 0xC3, CHR 0xA9], To = ''e'', Line = 1, Column = 1,
                        LineText = [CHR 0xC3, CHR 0x89], NewText = [], ByteOffset = 0\<rparr>])"
    by code_simp
  have cr: "dropCR [CHR 0xC3, CHR 0x89] = [CHR 0xC3, CHR 0x89]"
    by (simp add: dropCR_def carriage_return_def)
  show "detect uni False
           (Some \<lparr>mappings = [\<lparr>From = [CHR 0xC3, CHR 0xA9], To = ''e''\<rparr>],
                  sorted = [\<lparr>From = [CHR 0xC3, CHR 0xA9], To = ''e''\<rparr>]\<rparr>) [CHR 0xC3, CHR 0x89]
           = Some (Ok [\<lparr>From = [CHR 0xC3, CHR 0xA9], To = ''e'', Line = 1, Column = 1,
                        LineText = [CHR 0xC3, CHR 0x89], NewText = [], ByteOffset = 0\<rparr>])"
    by (subst detect_single_line)
       (simp_all add: newline_def MaxScanTokenSize_def cr low1 low2 m)
qed

text \<open>
  Claim C1 says that the substitution of the engine's apply stage and the substitution
  that \<open>writeFile\<close> recomputes are byte-identical. In case-insensitive mode they are
  not: the engine folds with \<open>strings.ToLower\<close>, which lower-cases Unicode letters,
  and the writer folds with its own \<open>toLower\<close>, which lower-cases \<open>A\<close>..\<open>Z\<close> only.
  Go lower-cases the letter U+00C9 (bytes C3 89) to U+00E9 (bytes C3 A9). For a file with
  the content C3 89 and the rule C3 A9 \<rightarrow> \<open>e\<close> the engine reports the new content
  \<open>e\<close>, and \<open>processFile\<close> writes the unchanged bytes C3 89 to the file.
\<close>

theorem engine_and_writer_diverge:
  assumes "uni [CHR 0xC3, CHR 0x89] = [CHR 0xC3, CHR 0xA9]"
    and "uni [CHR 0xC3, CHR 0xA9] = [CHR 0xC3, CHR 0xA9]"
  shows "apply_mappings uni False [\<lparr>From = [CHR 0xC3, CHR 0xA9], To = ''e''\<rparr>] [CHR 0xC3, CHR 0x89]
           = Some (Ok ''e'')
    \<and> writeFile_content False [\<lparr>From = [CHR 0xC3, CHR 0xA9], To = ''e''\<rparr>] [CHR 0xC3, CHR 0x89]
           = Some [CHR 0xC3, CHR 0x89]
    \<and> (\<exists>result fs'.
          processFile uni absPath backupPathFor
            \<lparr>DryRun = False, Backup = False, NoBackup = True, CaseSensitive = False\<rparr>
            \<lparr>mappings = [\<lparr>From = [CHR 0xC3, CHR 0xA9], To = ''e''\<rparr>],
             sorted = [\<lparr>From = [CHR 0xC3, CHR 0xA9], To = ''e''\<rparr>]\<rparr>
            \<lparr>files = [''f'' \<mapsto> \<lparr>file_data = [CHR 0xC3, CHR 0x89], file_perm = 420\<rparr>],
             unreadable = {}, unwritable = {}\<rparr>
            ''f'' = Some (Ok (result, fs'))
          \<and> JobError result = None
          \<and> JobResult result =
              Some \<lparr>Path = ''f'',
                    Replacements = [\<lparr>From = [CHR 0xC3, CHR 0xA9], To = ''e'', Line = 1, Column = 1,
                        LineText = [CHR 0xC3, CHR 0x89], NewText = ''e'', ByteOffset = 0\<rparr>],
                    Modified = True, OriginalSize = 2, NewSize = 1\<rparr>
          \<and> files fs' ''f'' = Some \<lparr>file_data = [CHR 0xC3, CHR 0x89], file_perm = 420\<rparr>)"
proof (intro conjI)
  let ?cfg = "\<lparr>DryRun = False, Backup = False, NoBackup = True, CaseSensitive = False\<rparr>"
  let ?mt = "\<lparr>mappings = [\<lparr>From = [CHR 0xC3, CHR 0xA9], To = ''e''\<rparr>],
             sorted = [\<lparr>From = [CHR 0xC3, CHR 0xA9], To = ''e''\<rparr>]\<rparr>"
  note f = engine_writer_failing_input [OF assms]
  show "apply_mappings uni False [\<lparr>From = [CHR 0xC3, CHR 0xA9], To = ''e''\<rparr>] [CHR 0xC3, CHR 0x89]
           = Some (Ok ''e'')" by (rule f(1))
  show "writeFile_content False [\<lparr>From = [CHR 0xC3, CHR 0xA9], To = ''e''\<rparr>] [CHR 0xC3, CHR 0x89]
           = Some [CHR 0xC3, CHR 0x89]" by (rule f(2))
  have d: "detect uni (CaseSensitive ?cfg) (Some ?mt) [CHR 0xC3, CHR 0x89] =
      Some (Ok [\<lparr>From = [CHR 0xC3, CHR 0xA9], To = ''e'', Line = 1, Column = 1,
                        LineText = [CHR 0xC3, CHR 0x89], NewText = [], ByteOffset = 0\<rparr>])"
    using f(3) by simp
  have pf: "ProcessFile (NewEngine uni ?cfg) ''f'' [CHR 0xC3, CHR 0x89] (Some ?mt) =
      Some (Ok \<lparr>Path = ''f'',
                    Replacements = [\<lparr>From = [CHR 0xC3, CHR 0xA9], To = ''e'', Line = 1, Column = 1,
                        LineText = [CHR 0xC3, CHR 0x89], NewText = ''e'', ByteOffset = 0\<rparr>],
                    Modified = True, OriginalSize = 2, NewSize = 1\<rparr>)"
    unfolding ProcessFile_def ProcessFile_context_apply [OF d, simplified]
    by (simp add: GetSortedMappings_ptr_def GetSortedMappings_def f(1) applied_context_def
        del: apply_mappings.simps)
  show "\<exists>result fs'.
          processFile uni absPath backupPathFor ?cfg ?mt
            \<lparr>files = [''f'' \<mapsto> \<lparr>file_data = [CHR 0xC3, CHR 0x89], file_perm = 420\<rparr>],
             unreadable = {}, unwritable = {}\<rparr>
            ''f'' = Some (Ok (result, fs'))
          \<and> JobError result = None
          \<and> JobResult result =
              Some \<lparr>Path = ''f'',
                    Replacements = [\<lparr>From = [CHR 0xC3, CHR 0xA9], To = ''e'', Line = 1, Column = 1,
                        LineText = [CHR 0xC3, CHR 0x89], NewText = ''e'', ByteOffset = 0\<rparr>],
                    Modified = True, OriginalSize = 2, NewSize = 1\<rparr>
          \<and> files fs' ''f'' = Some \<lparr>file_data = [CHR 0xC3, CHR 0x89], file_perm = 420\<rparr>"
    by (simp add: processFile_def os_ReadFile_def pf ShouldCreateBackup_def writeFile_def
        os_Stat_def os_Create_def GetSortedMappings_def f(2) write_data_def os_Chmod_def
        os_Rename_def os_Remove_def del: writeFile_content.simps)
qed

theorem engine_and_writer_diverge_witness:
  "apply_mappings (\<lambda>s. if s = [CHR 0xC3, CHR 0x89] then [CHR 0xC3, CHR 0xA9] else s) False
      [\<lparr>From = [CHR 0xC3, CHR 0xA9], To = ''e''\<rparr>] [CHR 0xC3, CHR 0x89] = Some (Ok ''e'')
   \<and> writeFile_content False [\<lparr>From = [CHR 0xC3, CHR 0xA9], To = ''e''\<rparr>] [CHR 0xC3, CHR 0x89]
           = Some [CHR 0xC3, CHR 0x89]"
proof -
  let ?uni = "\<lambda>s. if s = [CHR 0xC3, CHR 0x89] then [CHR 0xC3, CHR 0xA9] else s"
  have 1: "?uni [CHR 0xC3, CHR 0x89] = [CHR 0xC3, CHR 0xA9]" by simp
  have 2: "?uni [CHR 0xC3, CHR 0xA9] = [CHR 0xC3, CHR 0xA9]" by simp
  from engine_and_writer_diverge [of ?uni, OF 1 2] show ?thesis by blast
qed

section \<open>Revert is best effort\<close>








section \<open>Parsing a CSV log\<close>

lemma first_seen_snoc:
  "first_seen (xs @ [x]) = (if x \<in> set (first_seen xs) then first_seen xs else first_seen xs @ [x])"
  by (simp add: first_seen_def)

lemma set_first_seen [simp]: "set (first_seen xs) = set xs"
  by (induction xs rule: rev_induct) (auto simp: first_seen_snoc, simp add: first_seen_def)

lemma distinct_first_seen: "distinct (first_seen xs)"
  by (induction xs rule: rev_induct) (auto simp: first_seen_snoc, simp add: first_seen_def)

lemma map_of_grouped:
  "map_of (map (\<lambda>p. (p, f p)) ps) p = (if p \<in> set ps then Some (f p) else None)"
  by (induction ps) auto

lemma entry_for_snoc_other:
  "record ! 0 \<noteq> p \<Longrightarrow> entry_for (rows @ [record]) p = entry_for rows p"
  by (simp add: entry_for_def)

lemma entry_for_snoc_same:
  "entry_for (rows @ [record]) (record ! 0) =
     (entry_for rows (record ! 0))
       \<lparr>LogEntry.Replacements :=
          LogEntry.Replacements (entry_for rows (record ! 0)) @ [row_replacement record]\<rparr>"
  by (simp add: entry_for_def)

lemma entry_for_none:
  "p \<notin> set (map (\<lambda>record. record ! 0) rows) \<Longrightarrow>
   entry_for rows p = \<lparr>LogEntry.Timestamp = [], LogEntry.FilePath = p,
      LogEntry.OriginalSize = 0, LogEntry.NewSize = 0, LogEntry.Modified = True,
      LogEntry.Replacements = [], LogEntry.BackupPath = [], LogEntry.Error = []\<rparr>"
proof -
  assume "p \<notin> set (map (\<lambda>record. record ! 0) rows)"
  then have "filter (\<lambda>record. record ! 0 = p) rows = []"
    by (auto simp: filter_empty_conv)
  then show ?thesis by (simp add: entry_for_def)
qed

lemma foldl_add_record:
  "foldl add_record [] records =
     map (\<lambda>p. (p, entry_for (data_rows records) p))
       (first_seen (map (\<lambda>record. record ! 0) (data_rows records)))"
proof (induction records rule: rev_induct)
  case Nil
  then show ?case by (simp add: data_rows_def first_seen_def)
next
  case (snoc row records)
  let ?rows = "data_rows records"
  let ?paths = "map (\<lambda>record. record ! 0) ?rows"
  let ?M = "map (\<lambda>p. (p, entry_for ?rows p)) (first_seen ?paths)"
  have step: "foldl add_record [] (records @ [row]) = add_record ?M row"
    by (simp add: snoc)
  show ?case
  proof (cases "length row < 5")
    case True
    then have "data_rows (records @ [row]) = data_rows records" by (simp add: data_rows_def)
    moreover from True have "add_record ?M row = ?M" by (simp add: add_record.simps)
    ultimately show ?thesis unfolding step by simp
  next
    case False
    then have dr: "data_rows (records @ [row]) = ?rows @ [row]" by (simp add: data_rows_def)
    let ?p = "row ! 0"
    show ?thesis
    proof (cases "?p \<in> set ?paths")
      case seen: True
      then have fs: "first_seen (?paths @ [?p]) = first_seen ?paths"
        by (simp add: first_seen_snoc)
      have lookup: "map_of ?M ?p = Some (entry_for ?rows ?p)"
        using seen by (simp add: map_of_grouped)
      have upd: "map (\<lambda>(k, e). if k = ?p
                      then (k, e\<lparr>LogEntry.Replacements := LogEntry.Replacements e @ [row_replacement row]\<rparr>)
                      else (k, e)) ?M
           = map (\<lambda>p. (p, entry_for (?rows @ [row]) p)) (first_seen ?paths)"
        by (auto simp: entry_for_snoc_other entry_for_snoc_same)
      have "add_record ?M row = map (\<lambda>(k, e). if k = ?p
                      then (k, e\<lparr>LogEntry.Replacements := LogEntry.Replacements e @ [row_replacement row]\<rparr>)
                      else (k, e)) ?M"
        using False lookup by (simp add: add_record.simps Let_def row_replacement_def)
      with upd show ?thesis unfolding step by (simp add: dr fs)
    next
      case unseen: False
      then have fs: "first_seen (?paths @ [?p]) = first_seen ?paths @ [?p]"
        by (simp add: first_seen_snoc)
      have lookup: "map_of ?M ?p = None"
        using unseen by (simp add: map_of_grouped)
      have same: "map (\<lambda>p. (p, entry_for (?rows @ [row]) p)) (first_seen ?paths) = ?M"
      proof (rule map_cong [OF refl])
        fix p assume "p \<in> set (first_seen ?paths)"
        with unseen have "row ! 0 \<noteq> p" by auto
        then show "(p, entry_for (?rows @ [row]) p) = (p, entry_for ?rows p)"
          by (simp add: entry_for_snoc_other)
      qed
      have new: "entry_for (?rows @ [row]) ?p =
         \<lparr>LogEntry.Timestamp = [], LogEntry.FilePath = ?p,
          LogEntry.OriginalSize = 0, LogEntry.NewSize = 0, LogEntry.Modified = True,
          LogEntry.Replacements = [row_replacement row], LogEntry.BackupPath = [],
          LogEntry.Error = []\<rparr>"
        using entry_for_none [of ?p ?rows] unseen
        by (simp add: entry_for_snoc_same)
      have "add_record ?M row = ?M @ [(?p, \<lparr>LogEntry.Timestamp = [], LogEntry.FilePath = ?p,
          LogEntry.OriginalSize = 0, LogEntry.NewSize = 0, LogEntry.Modified = True,
          LogEntry.Replacements = [row_replacement row], LogEntry.BackupPath = [],
          LogEntry.Error = []\<rparr>)]"
        using False lookup by (simp add: add_record.simps Let_def row_replacement_def)
      with same new show ?thesis unfolding step by (simp add: dr fs)
    qed
  qed
qed

lemma parseCSVLog_grouped:
  "parseCSVLog lib content =
     (if csv_lines lib content = [] then Inl (NewParsingError [] ''no CSV data found in log file'' None)
      else case csv_ReadAll lib (strings_Join (csv_lines lib content) [newline]) of
        Inl err \<Rightarrow> Inl (NewParsingError [] ''failed to parse CSV data'' (Some err))
      | Inr records \<Rightarrow>
          if records = [] then Inl (NewParsingError [] ''no records found in CSV'' None)
          else Inr (grouped (data_rows (tl records))))"
  by (simp add: parseCSVLog_def Let_def foldl_add_record grouped_def comp_def
      split: sum.splits)

lemma split_lines_no_newline: "newline \<notin> set s \<Longrightarrow> split_lines s = [s]"
  by (subst split_lines.simps) simp

lemma split_lines_line:
  "newline \<notin> set a \<Longrightarrow> split_lines (a @ newline # rest) = a # split_lines rest"
proof -
  assume a: "newline \<notin> set a"
  then have t: "takeWhile (\<lambda>c. c \<noteq> newline) (a @ newline # rest) = a"
    by (induction a) auto
  show ?thesis
    by (subst split_lines.simps) (simp add: t)
qed

lemma split_lines_Join:
  "ls \<noteq> [] \<Longrightarrow> \<forall>l \<in> set ls. newline \<notin> set l \<Longrightarrow>
   split_lines (strings_Join ls [newline]) = ls"
proof (induction ls "[newline]" rule: strings_Join.induct)
  case 1
  then show ?case by simp
next
  case (2 a)
  then show ?case by (simp add: split_lines_no_newline)
next
  case (3 a b bs)
  then show ?case by (simp add: split_lines_line)
qed

lemma csv_lines_Join:
  assumes "\<forall>l \<in> set ls. newline \<notin> set l"
  shows "csv_lines lib (strings_Join ls [newline]) =
           filter (\<lambda>line. \<not> (line = [] \<or> strings_HasPrefix line ''#''))
             (map (strings_TrimSpace lib) ls)"
proof (cases "ls = []")
  case True
  then show ?thesis by (simp add: csv_lines_def split_lines_no_newline)
next
  case False
  from split_lines_Join [OF False assms] show ?thesis by (simp add: csv_lines_def)
qed

lemma csv_lines_ignored:
  assumes "\<forall>l \<in> set (before @ [line] @ after). newline \<notin> set l" and "ignored_line lib line"
  shows "csv_lines lib (strings_Join (before @ [line] @ after) [newline])
         = csv_lines lib (strings_Join (before @ after) [newline])"
proof -
  from assms(1) have "\<forall>l \<in> set (before @ after). newline \<notin> set l" by simp
  from csv_lines_Join [OF assms(1)] csv_lines_Join [OF this] assms(2)
  show ?thesis by (simp add: ignored_line_def)
qed

lemma grouped_paths:
  "map LogEntry.FilePath (grouped rows) = first_seen (map (\<lambda>record. record ! 0) rows)"
  by (simp add: grouped_def entry_for_def comp_def)

lemma grouped_entries:
  "e \<in> set (grouped rows) \<Longrightarrow>
     LogEntry.Modified e \<and>
     LogEntry.Replacements e =
       map row_replacement (filter (\<lambda>record. record ! 0 = LogEntry.FilePath e) rows)"
  by (auto simp: grouped_def entry_for_def)

text \<open>Claim C7. Parsing a CSV log groups the data rows by path. Let the log be a
  sequence of lines, one of them blank or starting with \<open>#\<close> after trimming, and let the
  reader return a header and the rows \<open>rows\<close> for the lines that are kept. Then the
  log with the ignored line and the log without it both give the entries
  \<open>grouped (data_rows rows)\<close>: the header is left out and so is every row with fewer
  than five fields; the paths of the entries are distinct and are the first fields of
  the rows with five fields or more, so that there are as many entries as distinct
  paths; each entry has \<open>Modified\<close> set and one replacement for each row of its path, in
  the order of the rows. The entries are listed in the order in which their paths are
  first seen, which stands for the unspecified order of the Go map.\<close>

theorem parseCSVLog_groups_rows:
  assumes "\<forall>l \<in> set (before @ [line] @ after). newline \<notin> set l"
    and "ignored_line lib line"
    and "csv_lines lib (strings_Join (before @ after) [newline]) \<noteq> []"
    and "csv_ReadAll lib
           (strings_Join (csv_lines lib (strings_Join (before @ after) [newline])) [newline])
         = Inr (header # rows)"
  shows "parseCSVLog lib (strings_Join (before @ [line] @ after) [newline])
           = Inr (grouped (data_rows rows))
       \<and> parseCSVLog lib (strings_Join (before @ after) [newline])
           = Inr (grouped (data_rows rows))
       \<and> distinct (map LogEntry.FilePath (grouped (data_rows rows)))
       \<and> set (map LogEntry.FilePath (grouped (data_rows rows)))
           = (\<lambda>record. record ! 0) ` {record \<in> set rows. 5 \<le> length record}
       \<and> length (grouped (data_rows rows))
           = card ((\<lambda>record. record ! 0) ` {record \<in> set rows. 5 \<le> length record})
       \<and> (\<forall>e \<in> set (grouped (data_rows rows)).
             LogEntry.Modified e \<and>
             LogEntry.Replacements e =
               map row_replacement
                 (filter (\<lambda>record. 5 \<le> length record \<and> record ! 0 = LogEntry.FilePath e) rows))"
proof -
  have same: "csv_lines lib (strings_Join (before @ [line] @ after) [newline])
              = csv_lines lib (strings_Join (before @ after) [newline])"
    by (rule csv_lines_ignored [OF assms(1) assms(2)])
  have without: "parseCSVLog lib (strings_Join (before @ after) [newline])
                 = Inr (grouped (data_rows rows))"
    by (simp add: parseCSVLog_grouped assms(3) assms(4))
  have with_line: "parseCSVLog lib (strings_Join (before @ [line] @ after) [newline])
                   = Inr (grouped (data_rows rows))"
    using assms(3) assms(4) by (simp add: parseCSVLog_grouped same del: append.simps)
  have paths: "set (map LogEntry.FilePath (grouped (data_rows rows)))
               = (\<lambda>record. record ! 0) ` {record \<in> set rows. 5 \<le> length record}"
    by (simp add: grouped_paths data_rows_def)
  have dist: "distinct (map LogEntry.FilePath (grouped (data_rows rows)))"
    by (simp add: grouped_paths distinct_first_seen)
  have "length (grouped (data_rows rows)) = length (map LogEntry.FilePath (grouped (data_rows rows)))"
    by simp
  also have "\<dots> = card (set (map LogEntry.FilePath (grouped (data_rows rows))))"
    using distinct_card [OF dist] by simp
  finally have count: "length (grouped (data_rows rows))
      = card ((\<lambda>record. record ! 0) ` {record \<in> set rows. 5 \<le> length record})"
    by (simp only: paths)
  have entries: "\<forall>e \<in> set (grouped (data_rows rows)).
             LogEntry.Modified e \<and>
             LogEntry.Replacements e =
               map row_replacement
                 (filter (\<lambda>record. 5 \<le> length record \<and> record ! 0 = LogEntry.FilePath e) rows)"
  proof
    fix e assume "e \<in> set (grouped (data_rows rows))"
    from grouped_entries [OF this] show "LogEntry.Modified e \<and>
             LogEntry.Replacements e =
               map row_replacement
                 (filter (\<lambda>record. 5 \<le> length record \<and> record ! 0 = LogEntry.FilePath e) rows)"
      by (simp add: data_rows_def conj_commute)
  qed
  from with_line without dist paths count entries show ?thesis by blast
qed

theorem parseCSVLog_groups_rows_witness:
  "ignored_line example_library ''# remap log''
   \<and> parseCSVLog example_library
       (strings_Join
          [''file_path,old_string,new_string,line,column'', ''# remap log'',
           ''file1.txt,old1,new1,1,5'', ''file2.txt,incomplete'',
           ''file1.txt,old2,new2,2,10'', ''file2.txt,foo,bar,1,1''] [newline])
     = Inr [\<lparr>LogEntry.Timestamp = [], LogEntry.FilePath = ''file1.txt'',
             LogEntry.OriginalSize = 0, LogEntry.NewSize = 0, LogEntry.Modified = True,
             LogEntry.Replacements =
               [\<lparr>From = ''old1'', To = ''new1'', Line = 0, Column = 0, LineText = [],
                 NewText = [], ByteOffset = 0\<rparr>,
                \<lparr>From = ''old2'', To = ''new2'', Line = 0, Column = 0, LineText = [],
                 NewText = [], ByteOffset = 0\<rparr>],
             LogEntry.BackupPath = [], LogEntry.Error = []\<rparr>,
            \<lparr>LogEntry.Timestamp = [], LogEntry.FilePath = ''file2.txt'',
             LogEntry.OriginalSize = 0, LogEntry.NewSize = 0, LogEntry.Modified = True,
             LogEntry.Replacements =
               [\<lparr>From = ''foo'', To = ''bar'', Line = 0, Column = 0, LineText = [],
                 NewText = [], ByteOffset = 0\<rparr>],
             LogEntry.BackupPath = [], LogEntry.Error = []\<rparr>]
   \<and> length (grouped (data_rows
         [[''file1.txt'', ''old1'', ''new1'', ''1'', ''5''], [''file2.txt'', ''incomplete''],
          [''file1.txt'', ''old2'', ''new2'', ''2'', ''10''],
          [''file2.txt'', ''foo'', ''bar'', ''1'', ''1'']])) = 2"
proof -
  let ?before = "[''file_path,old_string,new_string,line,column'']"
  let ?line = "''# remap log''"
  let ?after = "[''file1.txt,old1,new1,1,5'', ''file2.txt,incomplete'',
                 ''file1.txt,old2,new2,2,10'', ''file2.txt,foo,bar,1,1'']"
  let ?header = "[''file_path'', ''old_string'', ''new_string'', ''line'', ''column'']"
  let ?rows = "[[''file1.txt'', ''old1'', ''new1'', ''1'', ''5''], [''file2.txt'', ''incomplete''],
          [''file1.txt'', ''old2'', ''new2'', ''2'', ''10''],
          [''file2.txt'', ''foo'', ''bar'', ''1'', ''1'']]"
  have h1: "\<forall>l \<in> set (?before @ [?line] @ ?after). newline \<notin> set l"
    by (simp add: newline_def)
  have h2: "ignored_line example_library ?line"
    by code_simp
  have cl: "csv_lines example_library (strings_Join (?before @ ?after) [newline])
            = ?before @ ?after"
    by code_simp
  have h3: "csv_lines example_library (strings_Join (?before @ ?after) [newline]) \<noteq> []"
    by (simp only: cl) simp
  have h4: "csv_ReadAll example_library
           (strings_Join (csv_lines example_library (strings_Join (?before @ ?after) [newline]))
              [newline])
         = Inr (?header # ?rows)"
    unfolding cl by code_simp
  have g: "grouped (data_rows ?rows)
     = [\<lparr>LogEntry.Timestamp = [], LogEntry.FilePath = ''file1.txt'',
             LogEntry.OriginalSize = 0, LogEntry.NewSize = 0, LogEntry.Modified = True,
             LogEntry.Replacements =
               [\<lparr>From = ''old1'', To = ''new1'', Line = 0, Column = 0, LineText = [],
                 NewText = [], ByteOffset = 0\<rparr>,
                \<lparr>From = ''old2'', To = ''new2'', Line = 0, Column = 0, LineText = [],
                 NewText = [], ByteOffset = 0\<rparr>],
             LogEntry.BackupPath = [], LogEntry.Error = []\<rparr>,
            \<lparr>LogEntry.Timestamp = [], LogEntry.FilePath = ''file2.txt'',
             LogEntry.OriginalSize = 0, LogEntry.NewSize = 0, LogEntry.Modified = True,
             LogEntry.Replacements =
               [\<lparr>From = ''foo'', To = ''bar'', Line = 0, Column = 0, LineText = [],
                 NewText = [], ByteOffset = 0\<rparr>],
             LogEntry.BackupPath = [], LogEntry.Error = []\<rparr>]"
    by code_simp
  from parseCSVLog_groups_rows [OF h1 h2 h3 h4]
  have "parseCSVLog example_library (strings_Join (?before @ [?line] @ ?after) [newline])
           = Inr (grouped (data_rows ?rows))"
    and "length (grouped (data_rows ?rows))
           = card ((\<lambda>record. record ! 0) ` {record \<in> set ?rows. 5 \<le> length record})"
    by blast+
  moreover have "card ((\<lambda>record. record ! 0) ` {record \<in> set ?rows. 5 \<le> length record}) = 2"
    by code_simp
  ultimately show ?thesis using h2 g by simp
qed

section \<open>Forward and reverse replacements\<close>





lemma original_content_simps [simp]:
  "original_content [] = []"
  "original_content (p # ps) = original_text p @ original_content ps"
  "original_content (ps @ qs) = original_content ps @ original_content qs"
  "original_content (map Raw s) = s"
  by (simp_all add: original_content_def comp_def)





lemma restore_simps [simp]:
  "restore f t [] = []"
  "restore f t (p # ps) = (if p = Sub f t then map Raw f else [p]) @ restore f t ps"
  by (simp_all add: restore_def)













end
